theory Spec2Isabelle
  imports Main "HOL-Library.Log_Nat" "HOL-Library.Sublist"
begin

section \<open>Python numbers\<close>

text \<open>
  The readers build every amount with Python's \<^verbatim>\<open>float(...)\<close>, so the values the
  analysis routines work on are IEEE 754 binary64 numbers: finite values, the two
  infinities and NaN (\<^verbatim>\<open>float('inf')\<close> and \<^verbatim>\<open>float('nan')\<close> are accepted by the parser).
  A finite value is kept as the rational number it denotes. The two zeros are
  identified: they compare equal in Python, and no operation of this program tells
  them apart.
\<close>

datatype pyfloat = NaN | NInf | Fin rat | PInf

text \<open>Python's \<^verbatim>\<open><\<close> on floats: every comparison with NaN is false.\<close>

fun flt :: "pyfloat \<Rightarrow> pyfloat \<Rightarrow> bool" where
  "flt NaN y = False"
| "flt x NaN = False"
| "flt x NInf = False"
| "flt NInf y = True"
| "flt PInf y = False"
| "flt (Fin a) PInf = True"
| "flt (Fin a) (Fin b) = (a < b)"

text \<open>Python's \<^verbatim>\<open>==\<close> on floats: NaN is not equal to anything, itself included.\<close>

definition feq :: "pyfloat \<Rightarrow> pyfloat \<Rightarrow> bool" where
  "feq x y = (x \<noteq> NaN \<and> y \<noteq> NaN \<and> x = y)"

definition fgt :: "pyfloat \<Rightarrow> pyfloat \<Rightarrow> bool" where
  "fgt x y = flt y x"

definition fle :: "pyfloat \<Rightarrow> pyfloat \<Rightarrow> bool" where
  "fle x y = (flt x y \<or> feq x y)"

definition fge :: "pyfloat \<Rightarrow> pyfloat \<Rightarrow> bool" where
  "fge x y = fle y x"

subsection \<open>Rounding to binary64\<close>

definition pow2 :: "int \<Rightarrow> rat" where
  "pow2 e = (if 0 \<le> e then of_int (2 ^ nat e) else 1 / of_int (2 ^ nat (- e)))"

text \<open>The binary exponent \<open>\<lfloor>log\<^sub>2 a\<rfloor>\<close> of a positive rational.\<close>

definition ilog2 :: "rat \<Rightarrow> int" where
  "ilog2 a = (if 1 \<le> a then bitlen \<lfloor>a\<rfloor> - 1 else - bitlen (\<lceil>1 / a\<rceil> - 1))"

definition round_half_even :: "rat \<Rightarrow> int" where
  "round_half_even x =
     (let f = \<lfloor>x\<rfloor>; d = x - of_int f
      in if d < 1 / 2 then f
         else if 1 / 2 < d then f + 1
         else if even f then f else f + 1)"

text \<open>
  Round to nearest, ties to even, with 53 significant bits; the exponent is clamped at
  \<open>-1022\<close> (subnormal numbers), and a result of magnitude \<open>2\<^sup>1\<^sup>0\<^sup>2\<^sup>4\<close> or more
  overflows to an infinity. Python's float arithmetic raises no exception here.
\<close>

definition round64 :: "rat \<Rightarrow> pyfloat" where
  "round64 q =
     (if q = 0 then Fin 0
      else let a = \<bar>q\<bar>;
               e = max (ilog2 a) (- 1022);
               ulp = pow2 (e - 52);
               r = of_int (round_half_even (a / ulp)) * ulp
           in if pow2 1024 \<le> r then (if 0 < q then PInf else NInf)
              else Fin (if 0 < q then r else - r))"

text \<open>The finite values that are binary64 numbers.\<close>

definition is_double :: "pyfloat \<Rightarrow> bool" where
  "is_double x = (case x of Fin q \<Rightarrow> round64 q = Fin q | _ \<Rightarrow> True)"

fun fsub :: "pyfloat \<Rightarrow> pyfloat \<Rightarrow> pyfloat" where
  "fsub NaN y = NaN"
| "fsub x NaN = NaN"
| "fsub PInf PInf = NaN"
| "fsub NInf NInf = NaN"
| "fsub PInf y = PInf"
| "fsub NInf y = NInf"
| "fsub (Fin a) PInf = NInf"
| "fsub (Fin a) NInf = PInf"
| "fsub (Fin a) (Fin b) = round64 (a - b)"

fun fadd :: "pyfloat \<Rightarrow> pyfloat \<Rightarrow> pyfloat" where
  "fadd NaN y = NaN"
| "fadd x NaN = NaN"
| "fadd PInf NInf = NaN"
| "fadd NInf PInf = NaN"
| "fadd PInf y = PInf"
| "fadd NInf y = NInf"
| "fadd (Fin a) PInf = PInf"
| "fadd (Fin a) NInf = NInf"
| "fadd (Fin a) (Fin b) = round64 (a + b)"

fun fabs :: "pyfloat \<Rightarrow> pyfloat" where
  "fabs NaN = NaN"
| "fabs NInf = PInf"
| "fabs PInf = PInf"
| "fabs (Fin a) = Fin \<bar>a\<bar>"

text \<open>
  The sentinels of the scans are the integer \<^verbatim>\<open>0\<close>, not a float, so a running
  extreme holds either kind of number. Python compares an int with a float exactly.
\<close>

datatype pynum = IntV int | FloatV pyfloat

fun nval :: "pynum \<Rightarrow> pyfloat" where
  "nval (IntV i) = Fin (of_int i)"
| "nval (FloatV x) = x"

definition num_lt :: "pynum \<Rightarrow> pynum \<Rightarrow> bool" where
  "num_lt a b = flt (nval a) (nval b)"

definition num_gt :: "pynum \<Rightarrow> pynum \<Rightarrow> bool" where
  "num_gt a b = flt (nval b) (nval a)"

definition num_ge :: "pynum \<Rightarrow> pynum \<Rightarrow> bool" where
  "num_ge a b = fge (nval a) (nval b)"

definition num_le :: "pynum \<Rightarrow> pynum \<Rightarrow> bool" where
  "num_le a b = fle (nval a) (nval b)"

section \<open>Sorting with a key\<close>

text \<open>
  \<^verbatim>\<open>list.sort(key=...)\<close> and \<^verbatim>\<open>sorted(..., key=...)\<close> are stable and compare keys with
  \<^verbatim>\<open><\<close> only. On keys that are mutually comparable every stable sort returns the same
  list, which is the one built here by insertion from the right. (Every list this program
  sorts holds keys below zero, so no NaN key is ever compared.)
\<close>

fun insort_by :: "('a \<Rightarrow> pyfloat) \<Rightarrow> 'a \<Rightarrow> 'a list \<Rightarrow> 'a list" where
  "insort_by key x [] = [x]"
| "insort_by key x (y # ys) =
     (if flt (key y) (key x) then y # insort_by key x ys else x # y # ys)"

definition py_sorted :: "('a \<Rightarrow> pyfloat) \<Rightarrow> 'a list \<Rightarrow> 'a list" where
  "py_sorted key xs = foldr (insort_by key) xs []"

section \<open>cash\_on\_hand.py\<close>

text \<open>A record is the tuple \<^verbatim>\<open>(day, value)\<close>: an int and a float.\<close>

type_synonym daily = "int \<times> pyfloat"

type_synonym extreme = "int \<times> pynum"

text \<open>
  \<^verbatim>\<open>compute_differences\<close>: the loop over \<^verbatim>\<open>range(1, len(cash_data))\<close> appends one tuple
  per index; both indices it reads are in range.
\<close>

definition cash_compute_differences :: "daily list \<Rightarrow> daily list" where
  "cash_compute_differences cash_data =
     foldl (\<lambda>differences i.
              differences @
                [(fst (cash_data ! i), fsub (snd (cash_data ! i)) (snd (cash_data ! (i - 1))))])
       [] [1..<length cash_data]"

text \<open>
  The loop of \<^verbatim>\<open>find_extremes\<close>, with its three variables as accumulators. The second
  comparison is the \<^verbatim>\<open>elif\<close> of the source: it is only made when the first one fails.
\<close>

fun cash_scan :: "daily list \<Rightarrow> extreme \<Rightarrow> extreme \<Rightarrow> daily list \<Rightarrow>
    extreme \<times> extreme \<times> daily list" where
  "cash_scan [] highest_increase highest_decrease deficits =
     (highest_increase, highest_decrease, deficits)"
| "cash_scan ((day, difference) # rest) highest_increase highest_decrease deficits =
     (let (highest_increase', highest_decrease') =
            (if num_gt (FloatV difference) (snd highest_increase)
             then ((day, FloatV difference), highest_decrease)
             else if num_lt (FloatV difference) (snd highest_decrease)
             then (highest_increase, (day, FloatV difference))
             else (highest_increase, highest_decrease));
          deficits' =
            (if num_lt (FloatV difference) (IntV 0) then deficits @ [(day, difference)]
             else deficits)
      in cash_scan rest highest_increase' highest_decrease' deficits')"

definition deficit_sort :: "daily \<Rightarrow> pyfloat" where
  "deficit_sort deficit = snd deficit"

definition cash_find_extremes :: "daily list \<Rightarrow> extreme \<times> extreme \<times> daily list" where
  "cash_find_extremes differences =
     (case cash_scan differences (0, IntV 0) (0, IntV 0) [] of
        (highest_increase, highest_decrease, deficits) \<Rightarrow>
          (let deficits = py_sorted deficit_sort deficits;
               top_deficits = take 3 deficits
           in (highest_increase, highest_decrease, top_deficits)))"

section \<open>profit\_and\_loss.py\<close>

definition profit_compute_differences :: "daily list \<Rightarrow> daily list" where
  "profit_compute_differences profit_loss_data =
     foldl (\<lambda>differences i.
              (case profit_loss_data ! i of (current_day, current_profit) \<Rightarrow>
               case profit_loss_data ! (i - 1) of (_, previous_profit) \<Rightarrow>
                 (let difference = fsub current_profit previous_profit
                  in differences @ [(current_day, difference)])))
       [] [1..<length profit_loss_data]"

fun profit_scan :: "daily list \<Rightarrow> extreme \<Rightarrow> extreme \<Rightarrow> daily list \<Rightarrow>
    extreme \<times> extreme \<times> daily list" where
  "profit_scan [] highest_increase highest_decrease deficits =
     (highest_increase, highest_decrease, deficits)"
| "profit_scan ((day, difference) # rest) highest_increase highest_decrease deficits =
     (let (highest_increase', highest_decrease') =
            (if num_gt (FloatV difference) (snd highest_increase)
             then ((day, FloatV difference), highest_decrease)
             else if num_lt (FloatV difference) (snd highest_decrease)
             then (highest_increase, (day, FloatV difference))
             else (highest_increase, highest_decrease));
          deficits' =
            (if num_lt (FloatV difference) (IntV 0) then deficits @ [(day, difference)]
             else deficits)
      in profit_scan rest highest_increase' highest_decrease' deficits')"

definition sort_deficit :: "daily \<Rightarrow> pyfloat" where
  "sort_deficit item = snd item"

definition profit_find_extremes :: "daily list \<Rightarrow> extreme \<times> extreme \<times> daily list" where
  "profit_find_extremes differences =
     (case profit_scan differences (0, IntV 0) (0, IntV 0) [] of
        (highest_increase, highest_decrease, deficits) \<Rightarrow>
          (let deficits_sorted = py_sorted sort_deficit deficits;
               top_deficits = take 3 deficits_sorted
           in (highest_increase, highest_decrease, top_deficits)))"

section \<open>overheads.py\<close>

text \<open>The dictionary \<^verbatim>\<open>{'category': ..., 'overhead': ...}\<close>.\<close>

record overhead_rec =
  category :: string
  overhead :: pynum

fun highest_scan :: "overhead_rec list \<Rightarrow> overhead_rec \<Rightarrow> overhead_rec" where
  "highest_scan [] highest_overhead = highest_overhead"
| "highest_scan (category_data # rest) highest_overhead =
     highest_scan rest
       (if num_gt (overhead category_data) (overhead highest_overhead) then category_data
        else highest_overhead)"

definition find_highest_overhead :: "overhead_rec list \<Rightarrow> overhead_rec" where
  "find_highest_overhead overheads =
     highest_scan overheads \<lparr>category = '''', overhead = IntV 0\<rparr>"

section \<open>The scan with two independent tests\<close>

text \<open>
  Not in the source: the variant of the loop of \<^verbatim>\<open>find_extremes\<close> in which the test for a
  new minimum is an \<^verbatim>\<open>if\<close> of its own rather than the \<^verbatim>\<open>elif\<close> of the first test. It is
  the reference the guarded loop is compared with.
\<close>

fun unguarded_scan :: "daily list \<Rightarrow> extreme \<Rightarrow> extreme \<Rightarrow> daily list \<Rightarrow>
    extreme \<times> extreme \<times> daily list" where
  "unguarded_scan [] highest_increase highest_decrease deficits =
     (highest_increase, highest_decrease, deficits)"
| "unguarded_scan ((day, difference) # rest) highest_increase highest_decrease deficits =
     (let highest_increase' =
            (if num_gt (FloatV difference) (snd highest_increase)
             then (day, FloatV difference) else highest_increase);
          highest_decrease' =
            (if num_lt (FloatV difference) (snd highest_decrease)
             then (day, FloatV difference) else highest_decrease);
          deficits' =
            (if num_lt (FloatV difference) (IntV 0) then deficits @ [(day, difference)]
             else deficits)
      in unguarded_scan rest highest_increase' highest_decrease' deficits')"

definition find_extremes_unguarded :: "daily list \<Rightarrow> extreme \<times> extreme \<times> daily list" where
  "find_extremes_unguarded differences =
     (case unguarded_scan differences (0, IntV 0) (0, IntV 0) [] of
        (highest_increase, highest_decrease, deficits) \<Rightarrow>
          (highest_increase, highest_decrease, take 3 (py_sorted deficit_sort deficits)))"

section \<open>Text formatting\<close>

text \<open>\<^verbatim>\<open>str\<close> of an int, as an f-string prints it: decimal digits, with a minus sign.\<close>

definition digit_char :: "nat \<Rightarrow> char" where
  "digit_char n = ''0123456789'' ! n"

fun nat_str :: "nat \<Rightarrow> string" where
  "nat_str n = (if n < 10 then [digit_char n] else nat_str (n div 10) @ [digit_char (n mod 10)])"

declare nat_str.simps [simp del]

definition int_str :: "int \<Rightarrow> string" where
  "int_str i = (if i < 0 then ''-'' @ nat_str (nat (- i)) else nat_str (nat i))"

text \<open>
  What the program takes from Python's built-ins and is not modelled further:
  \<^item> \<open>py_int\<close>, \<open>py_float\<close>: \<^verbatim>\<open>int(s)\<close> and \<^verbatim>\<open>float(s)\<close> on a string, \<open>None\<close> where Python
    raises \<^verbatim>\<open>ValueError\<close>;
  \<^item> \<open>float_digits\<close>: \<^verbatim>\<open>repr\<close> of a finite float that is not a whole number below
    \<open>10\<^sup>1\<^sup>6\<close> (the shortest digits that read back as the same float);
  \<^item> \<open>str_upper\<close>: \<^verbatim>\<open>str.upper\<close>.
\<close>

record pyenv =
  py_int :: "string \<Rightarrow> int option"
  py_float :: "string \<Rightarrow> pyfloat option"
  float_digits :: "rat \<Rightarrow> string"
  str_upper :: "string \<Rightarrow> string"

text \<open>
  \<^verbatim>\<open>repr\<close> of a float, which is what an f-string prints. A whole number of magnitude
  below \<open>10\<^sup>1\<^sup>6\<close> prints as its digits followed by \<^verbatim>\<open>.0\<close>. (Python prints the negative
  zero as \<^verbatim>\<open>-0.0\<close>; this program only prints amounts above zero.)
\<close>

definition float_repr :: "pyenv \<Rightarrow> pyfloat \<Rightarrow> string" where
  "float_repr E x =
     (case x of
        NaN \<Rightarrow> ''nan''
      | PInf \<Rightarrow> ''inf''
      | NInf \<Rightarrow> ''-inf''
      | Fin q \<Rightarrow>
          if of_int \<lfloor>q\<rfloor> = q \<and> \<bar>q\<bar> < 10 ^ 16 then int_str \<lfloor>q\<rfloor> @ ''.0''
          else float_digits E q)"

fun num_str :: "pyenv \<Rightarrow> pynum \<Rightarrow> string" where
  "num_str E (IntV i) = int_str i"
| "num_str E (FloatV x) = float_repr E x"

definition nl :: string where
  "nl = [CHR 0x0A]"

section \<open>The readers\<close>

text \<open>
  A row is what \<^verbatim>\<open>csv.DictReader\<close> yields: a dictionary from column names to strings.
  (Rows are taken to have a field for every column of the header; the \<^verbatim>\<open>None\<close> that
  \<^verbatim>\<open>DictReader\<close> puts in for a missing field is not modelled.) Opening, decoding and
  splitting the file is the library's work: a file is given by its rows.
\<close>

type_synonym row = "string \<rightharpoonup> string"

datatype error =
  FileNotFoundError string
  | KeyError string
  | ValueError
  | PermissionError string

text \<open>
  The files: the CSV inputs by their rows, the text files by their content, and which
  paths can be opened for writing. The program reads under \<^verbatim>\<open>csv_reports/\<close> and writes
  \<^verbatim>\<open>summary_report.txt\<close>, so the two kinds of file never meet.
\<close>

record world =
  csv_files :: "string \<rightharpoonup> row list"
  text_files :: "string \<rightharpoonup> string"
  writable :: "string \<Rightarrow> bool"

definition cell :: "row \<Rightarrow> string \<Rightarrow> error + string" where
  "cell row col = (case row col of None \<Rightarrow> Inl (KeyError col) | Some s \<Rightarrow> Inr s)"

definition cell_int :: "pyenv \<Rightarrow> row \<Rightarrow> string \<Rightarrow> error + int" where
  "cell_int E row col =
     (case cell row col of
        Inl e \<Rightarrow> Inl e
      | Inr s \<Rightarrow> (case py_int E s of None \<Rightarrow> Inl ValueError | Some i \<Rightarrow> Inr i))"

definition cell_float :: "pyenv \<Rightarrow> row \<Rightarrow> string \<Rightarrow> error + pyfloat" where
  "cell_float E row col =
     (case cell row col of
        Inl e \<Rightarrow> Inl e
      | Inr s \<Rightarrow> (case py_float E s of None \<Rightarrow> Inl ValueError | Some x \<Rightarrow> Inr x))"

text \<open>\<^verbatim>\<open>read_cash_on_hand\<close>: the loop over the rows stops at the first exception.\<close>

fun cash_rows :: "pyenv \<Rightarrow> row list \<Rightarrow> daily list \<Rightarrow> error + daily list" where
  "cash_rows E [] cash_data = Inr cash_data"
| "cash_rows E (row # rest) cash_data =
     (case cell_int E row ''Day'' of
        Inl e \<Rightarrow> Inl e
      | Inr day \<Rightarrow>
          (case cell_float E row ''Cash On Hand'' of
             Inl e \<Rightarrow> Inl e
           | Inr cash_on_hand \<Rightarrow> cash_rows E rest (cash_data @ [(day, cash_on_hand)])))"

definition read_cash_on_hand :: "pyenv \<Rightarrow> world \<Rightarrow> string \<Rightarrow> error + daily list" where
  "read_cash_on_hand E w file_path =
     (case csv_files w file_path of
        None \<Rightarrow> Inl (FileNotFoundError file_path)
      | Some rows \<Rightarrow> cash_rows E rows [])"

fun profit_rows :: "pyenv \<Rightarrow> row list \<Rightarrow> daily list \<Rightarrow> error + daily list" where
  "profit_rows E [] profit_loss_data = Inr profit_loss_data"
| "profit_rows E (row # rest) profit_loss_data =
     (case cell_int E row ''Day'' of
        Inl e \<Rightarrow> Inl e
      | Inr day \<Rightarrow>
          (case cell_float E row ''Net Profit'' of
             Inl e \<Rightarrow> Inl e
           | Inr net_profit \<Rightarrow> profit_rows E rest (profit_loss_data @ [(day, net_profit)])))"

definition read_profit_loss :: "pyenv \<Rightarrow> world \<Rightarrow> string \<Rightarrow> error + daily list" where
  "read_profit_loss E w file_path =
     (case csv_files w file_path of
        None \<Rightarrow> Inl (FileNotFoundError file_path)
      | Some rows \<Rightarrow> profit_rows E rows [])"

fun overhead_rows :: "pyenv \<Rightarrow> row list \<Rightarrow> overhead_rec list \<Rightarrow> error + overhead_rec list" where
  "overhead_rows E [] overheads = Inr overheads"
| "overhead_rows E (row # rest) overheads =
     (case cell row ''Category'' of
        Inl e \<Rightarrow> Inl e
      | Inr category_v \<Rightarrow>
          (case cell_float E row ''Overheads'' of
             Inl e \<Rightarrow> Inl e
           | Inr overhead_v \<Rightarrow>
               overhead_rows E rest
                 (overheads @ [\<lparr>category = category_v, overhead = FloatV overhead_v\<rparr>])))"

definition read_overheads :: "pyenv \<Rightarrow> world \<Rightarrow> string \<Rightarrow> error + overhead_rec list" where
  "read_overheads E w file_path =
     (case csv_files w file_path of
        None \<Rightarrow> Inl (FileNotFoundError file_path)
      | Some rows \<Rightarrow> overhead_rows E rows [])"

section \<open>main.py\<close>

text \<open>
  \<^verbatim>\<open>main.py\<close> imports the profit routines from a module it calls \<^verbatim>\<open>profit_loss\<close>; they are
  taken to be those of \<^verbatim>\<open>profit_and_loss.py\<close>.
\<close>

definition sort_by_amount :: "daily \<Rightarrow> pyfloat" where
  "sort_by_amount item = snd item"

text \<open>Each section of the report is the list of the strings written, one per \<^verbatim>\<open>file.write\<close>.\<close>

definition overhead_line :: "pyenv \<Rightarrow> overhead_rec \<Rightarrow> string" where
  "overhead_line E highest_overhead =
     ''[HIGHEST OVERHEAD] '' @ str_upper E (category highest_overhead) @ '': '' @
     num_str E (overhead highest_overhead) @ ''%'' @ nl @ nl"

definition cash_section :: "pyenv \<Rightarrow> daily list \<Rightarrow> extreme \<Rightarrow> daily list \<Rightarrow> string list" where
  "cash_section E cash_differences cash_increase cash_deficits =
     (let consistent_cash = list_all (\<lambda>(_, difference). fge difference (Fin 0)) cash_differences
      in if consistent_cash
         then [''[HIGHEST CASH SURPLUS] DAY: '' @ int_str (fst cash_increase) @
               '', AMOUNT: USD'' @ num_str E (snd cash_increase) @ nl @ nl]
         else
           concat (map (\<lambda>(day, deficit).
                     if flt deficit (Fin 0)
                     then [''[CASH DEFICIT] DAY: '' @ int_str day @ '', AMOUNT: USD'' @
                           float_repr E (fabs deficit) @ nl]
                     else [])
                   cash_differences) @
           [nl] @
           (let cash_deficits_sorted = take 3 (py_sorted sort_by_amount cash_deficits)
            in map (\<lambda>(i, (day, deficit)).
                      (let ordinal = [''1ST'', ''2ND'', ''3RD''] ! (i - 1)
                       in ''['' @ ordinal @ '' HIGHEST CASH DEFICIT] DAY: '' @ int_str day @
                          '', AMOUNT: USD'' @ float_repr E (fabs deficit) @ nl))
                 (zip [1..<Suc (length cash_deficits_sorted)] cash_deficits_sorted)) @
           [nl])"

definition profit_section :: "pyenv \<Rightarrow> daily list \<Rightarrow> extreme \<Rightarrow> daily list \<Rightarrow> string list" where
  "profit_section E profit_differences profit_increase profit_deficits =
     (let consistent_profit =
            list_all (\<lambda>(_, difference). fge difference (Fin 0)) profit_differences
      in if consistent_profit
         then [''[HIGHEST NET PROFIT SURPLUS] DAY: '' @ int_str (fst profit_increase) @
               '', AMOUNT: USD'' @ num_str E (snd profit_increase) @ nl @ nl]
         else
           concat (map (\<lambda>(day, deficit).
                     if flt deficit (Fin 0)
                     then [''[NET PROFIT DEFICIT] DAY: '' @ int_str day @ '', AMOUNT: USD'' @
                           float_repr E (fabs deficit) @ nl]
                     else [])
                   profit_differences) @
           [nl] @
           (let profit_deficits_sorted = take 3 (py_sorted sort_by_amount profit_deficits)
            in map (\<lambda>(i, (day, deficit)).
                      (let ordinal = [''1ST'', ''2ND'', ''3RD''] ! (i - 1)
                       in ''['' @ ordinal @ '' HIGHEST NET PROFIT DEFICIT] DAY: '' @
                          int_str day @ '', AMOUNT: USD'' @ float_repr E (fabs deficit) @ nl))
                 (zip [1..<Suc (length profit_deficits_sorted)] profit_deficits_sorted)) @
           [nl])"

text \<open>
  The statements of \<^verbatim>\<open>generate_summary_report\<close> run in the order they are written. To
  speak about that order, the model keeps a trace: the completion of each read, each call
  of an analysis routine, and the opening of the output file, in program order.
\<close>

datatype event = ReadDone string | Analysis string | OpenedForWrite string

text \<open>
  \<^verbatim>\<open>generate_summary_report\<close>. An exception of a reader ends the run; the output file is
  opened with mode \<^verbatim>\<open>'w'\<close> after the last analysis step, which empties it, and the
  sections are written in order. The result is the outcome, the files and the trace.
\<close>

definition generate_summary_report :: "pyenv \<Rightarrow> world \<Rightarrow> (error + unit) \<times> world \<times> event list" where
  "generate_summary_report E w =
     (case read_cash_on_hand E w ''csv_reports/cash_on_hand.csv'' of
        Inl e \<Rightarrow> (Inl e, w, [])
      | Inr cash_data \<Rightarrow>
     (let trace = [ReadDone ''csv_reports/cash_on_hand.csv''];
          trace = trace @ [Analysis ''compute_cash_differences''];
          cash_differences = cash_compute_differences cash_data;
          trace = trace @ [Analysis ''find_cash_extremes'']
      in case cash_find_extremes cash_differences of
        (cash_increase, cash_decrease, cash_deficits) \<Rightarrow>
     (case read_overheads E w ''csv_reports/Overheads.csv'' of
        Inl e \<Rightarrow> (Inl e, w, trace)
      | Inr overheads_data \<Rightarrow>
     (let trace = trace @ [ReadDone ''csv_reports/Overheads.csv''];
          trace = trace @ [Analysis ''find_highest_overhead''];
          highest_overhead = find_highest_overhead overheads_data
      in case read_profit_loss E w ''csv_reports/Profit_and_Loss.csv'' of
        Inl e \<Rightarrow> (Inl e, w, trace)
      | Inr profit_loss_data \<Rightarrow>
     (let trace = trace @ [ReadDone ''csv_reports/Profit_and_Loss.csv''];
          trace = trace @ [Analysis ''compute_profit_differences''];
          profit_differences = profit_compute_differences profit_loss_data;
          trace = trace @ [Analysis ''find_profit_extremes'']
      in case profit_find_extremes profit_differences of
        (profit_increase, profit_decrease, profit_deficits) \<Rightarrow>
          if \<not> writable w ''summary_report.txt''
          then (Inl (PermissionError ''summary_report.txt''), w, trace)
          else
            (let trace = trace @ [OpenedForWrite ''summary_report.txt''];
                 writes =
                   [overhead_line E highest_overhead] @
                   cash_section E cash_differences cash_increase cash_deficits @
                   profit_section E profit_differences profit_increase profit_deficits
             in (Inr (),
                 w\<lparr>text_files := (text_files w)(''summary_report.txt'' \<mapsto> concat writes)\<rparr>,
                 trace)))))))"

text \<open>The order in which a complete run logs its steps.\<close>

definition program_order :: "event list" where
  "program_order =
     [ReadDone ''csv_reports/cash_on_hand.csv'',
      Analysis ''compute_cash_differences'',
      Analysis ''find_cash_extremes'',
      ReadDone ''csv_reports/Overheads.csv'',
      Analysis ''find_highest_overhead'',
      ReadDone ''csv_reports/Profit_and_Loss.csv'',
      Analysis ''compute_profit_differences'',
      Analysis ''find_profit_extremes'',
      OpenedForWrite ''summary_report.txt'']"

text \<open>
  The order the specification describes, as a test on a trace: once an analysis step has
  been logged, no read completes.
\<close>

fun is_analysis :: "event \<Rightarrow> bool" where
  "is_analysis (Analysis f) = True"
| "is_analysis e = False"

fun is_read :: "event \<Rightarrow> bool" where
  "is_read (ReadDone p) = True"
| "is_read e = False"

definition reads_before_analysis :: "event list \<Rightarrow> bool" where
  "reads_before_analysis trace =
     list_all (\<lambda>e. \<not> is_read e) (dropWhile (\<lambda>e. \<not> is_analysis e) trace)"

section \<open>Example inputs\<close>

text \<open>
  A stand-in for the built-ins that agrees with Python on the strings of the examples:
  \<^verbatim>\<open>int\<close> and \<^verbatim>\<open>float\<close> read one to fifteen ASCII digits and reject letters;
  \<^verbatim>\<open>upper\<close> maps the ASCII letters.
\<close>

definition plain_nat :: "string \<Rightarrow> nat option" where
  "plain_nat s =
     (if s \<noteq> [] \<and> length s \<le> 15 \<and> list_all (\<lambda>c. c \<in> set ''0123456789'') s
      then Some (foldl (\<lambda>n c. 10 * n + (of_char c - 48)) 0 s)
      else None)"

definition ascii_upper :: "string \<Rightarrow> string" where
  "ascii_upper s =
     map (\<lambda>c. if 97 \<le> (of_char c :: nat) \<and> (of_char c :: nat) \<le> 122
               then char_of (of_char c - 32 :: nat) else c) s"

definition example_env :: pyenv where
  "example_env =
     \<lparr>py_int = (\<lambda>s. map_option int (plain_nat s)),
      py_float = (\<lambda>s. map_option (\<lambda>n. Fin (of_nat n)) (plain_nat s)),
      float_digits = (\<lambda>q. ''?''),
      str_upper = ascii_upper\<rparr>"

definition example_cash_rows :: "row list" where
  "example_cash_rows =
     [map_of [(''Day'', ''1''), (''Cash On Hand'', ''100'')],
      map_of [(''Day'', ''2''), (''Cash On Hand'', ''150'')],
      map_of [(''Day'', ''3''), (''Cash On Hand'', ''90'')],
      map_of [(''Day'', ''4''), (''Cash On Hand'', ''90'')]]"

definition example_overhead_rows :: "row list" where
  "example_overhead_rows =
     [map_of [(''Category'', ''Rent''), (''Overheads'', ''40'')],
      map_of [(''Category'', ''Payroll''), (''Overheads'', ''55'')],
      map_of [(''Category'', ''Utilities''), (''Overheads'', ''5'')]]"

definition example_profit_rows :: "row list" where
  "example_profit_rows =
     [map_of [(''Day'', ''1''), (''Net Profit'', ''10'')],
      map_of [(''Day'', ''2''), (''Net Profit'', ''30'')],
      map_of [(''Day'', ''3''), (''Net Profit'', ''60'')]]"

definition example_world :: world where
  "example_world =
     \<lparr>csv_files = map_of
        [(''csv_reports/cash_on_hand.csv'', example_cash_rows),
         (''csv_reports/Overheads.csv'', example_overhead_rows),
         (''csv_reports/Profit_and_Loss.csv'', example_profit_rows)],
      text_files = Map.empty,
      writable = (\<lambda>p. True)\<rparr>"

text \<open>The same files, with a cash amount that is not a number in the second row.\<close>

definition malformed_world :: world where
  "malformed_world =
     example_world\<lparr>csv_files := (csv_files example_world)
       (''csv_reports/cash_on_hand.csv'' \<mapsto>
          [map_of [(''Day'', ''1''), (''Cash On Hand'', ''100'')],
           map_of [(''Day'', ''2''), (''Cash On Hand'', ''abc'')]])\<rparr>"

section \<open>Facts about float comparison\<close>

lemma flt_irrefl: "\<not> flt x x"
  by (cases x) simp_all

lemma flt_not_NaN: "flt x y \<Longrightarrow> x \<noteq> NaN \<and> y \<noteq> NaN"
  by (cases x; cases y) simp_all

lemma flt_trans: "flt x y \<Longrightarrow> flt y z \<Longrightarrow> flt x z"
  by (cases x; cases y; cases z) simp_all

lemma flt_asym: "flt x y \<Longrightarrow> \<not> flt y x"
  by (cases x; cases y) simp_all

lemma flt_total: "x \<noteq> NaN \<Longrightarrow> y \<noteq> NaN \<Longrightarrow> flt x y \<or> x = y \<or> flt y x"
  by (cases x; cases y) auto

lemma fle_iff_not_flt: "x \<noteq> NaN \<Longrightarrow> y \<noteq> NaN \<Longrightarrow> fle x y \<longleftrightarrow> \<not> flt y x"
  by (cases x; cases y) (auto simp: fle_def feq_def)

lemma fle_not_NaN: "fle x y \<Longrightarrow> x \<noteq> NaN \<and> y \<noteq> NaN"
  by (auto simp: fle_def feq_def dest: flt_not_NaN)

section \<open>The difference engine\<close>

lemma foldl_snoc_map: "foldl (\<lambda>acc i. acc @ [f i]) a is = a @ map f is"
  by (induction "is" arbitrary: a) simp_all

lemma cash_compute_differences_map:
  "cash_compute_differences xs =
     map (\<lambda>i. (fst (xs ! i), fsub (snd (xs ! i)) (snd (xs ! (i - 1))))) [1..<length xs]"
  unfolding cash_compute_differences_def by (simp add: foldl_snoc_map)

lemma profit_compute_differences_map:
  "profit_compute_differences xs =
     map (\<lambda>i. (fst (xs ! i), fsub (snd (xs ! i)) (snd (xs ! (i - 1))))) [1..<length xs]"
proof -
  have "(\<lambda>differences i.
           (case xs ! i of (current_day, current_profit) \<Rightarrow>
            case xs ! (i - 1) of (_, previous_profit) \<Rightarrow>
              (let difference = fsub current_profit previous_profit
               in differences @ [(current_day, difference)]))) =
        (\<lambda>differences i. differences @
           [(fst (xs ! i), fsub (snd (xs ! i)) (snd (xs ! (i - 1))))])"
    by (simp add: fun_eq_iff split: prod.splits)
  then show ?thesis
    unfolding profit_compute_differences_def by (simp add: foldl_snoc_map)
qed

lemma fadd_back_exact:
  assumes "round64 (a - b) = Fin (a - b)" and "round64 a = Fin a"
  shows "fadd (fsub (Fin a) (Fin b)) (Fin b) = Fin a"
  using assms by simp

lemma differences_nth:
  assumes "i < length xs - 1"
  shows "map (\<lambda>i. (fst (xs ! i), fsub (snd (xs ! i)) (snd (xs ! (i - 1))))) [1..<length xs] ! i =
         (fst (xs ! Suc i), fsub (snd (xs ! Suc i)) (snd (xs ! i)))"
  using assms by simp

text \<open>
  C1, as stated, fails: on floats, adding the difference back to the previous value need
  not give the current value. Both inputs below are binary64 numbers; the exact difference
  \<open>1 - 10\<^sup>1\<^sup>6\<close> is not, and rounds to \<open>-10\<^sup>1\<^sup>6\<close>.
\<close>

theorem compute_differences_add_back_counterexample:
  "is_double (Fin 10000000000000000) \<and> is_double (Fin 1) \<and>
   cash_compute_differences [(1, Fin 10000000000000000), (2, Fin 1)] =
     [(2, Fin (- 10000000000000000))] \<and>
   \<not> feq (fadd (snd (cash_compute_differences [(1, Fin 10000000000000000), (2, Fin 1)] ! 0))
             (snd ([(1, Fin 10000000000000000), (2, Fin 1)] ! 0)))
          (snd ([(1::int, Fin 10000000000000000), (2, Fin 1)] ! 1))"
  by code_simp

text \<open>
  C1, amended: for an input of length \<open>N\<close>, both versions of \<^verbatim>\<open>compute_differences\<close>
  return exactly \<open>N - 1\<close> entries (none when \<open>N \<le> 1\<close>), and entry \<open>i\<close> is the pair of
  \<open>day[i+1]\<close> and the float difference \<open>value[i+1] - value[i]\<close>, rounded as binary64
  subtraction rounds. Adding the difference back gives \<open>value[i+1]\<close> whenever both
  values are finite binary64 numbers whose exact difference is a binary64 number too.
\<close>

theorem compute_differences_entries:
  "length (cash_compute_differences xs) = length xs - 1 \<and>
   length (profit_compute_differences xs) = length xs - 1 \<and>
   (\<forall>i. i < length xs - 1 \<longrightarrow>
      cash_compute_differences xs ! i =
        (fst (xs ! Suc i), fsub (snd (xs ! Suc i)) (snd (xs ! i))) \<and>
      profit_compute_differences xs ! i =
        (fst (xs ! Suc i), fsub (snd (xs ! Suc i)) (snd (xs ! i))) \<and>
      (\<forall>a b. snd (xs ! Suc i) = Fin a \<and> snd (xs ! i) = Fin b \<and>
             round64 a = Fin a \<and> round64 (a - b) = Fin (a - b) \<longrightarrow>
         feq (fadd (snd (cash_compute_differences xs ! i)) (snd (xs ! i))) (snd (xs ! Suc i)) \<and>
         feq (fadd (snd (profit_compute_differences xs ! i)) (snd (xs ! i)))
           (snd (xs ! Suc i))))"
proof (intro conjI allI impI)
  show "length (cash_compute_differences xs) = length xs - 1"
    by (simp add: cash_compute_differences_map)
  show "length (profit_compute_differences xs) = length xs - 1"
    by (simp add: profit_compute_differences_map)
next
  fix i assume i: "i < length xs - 1"
  show c: "cash_compute_differences xs ! i =
        (fst (xs ! Suc i), fsub (snd (xs ! Suc i)) (snd (xs ! i)))"
    unfolding cash_compute_differences_map by (rule differences_nth [OF i])
  show p: "profit_compute_differences xs ! i =
        (fst (xs ! Suc i), fsub (snd (xs ! Suc i)) (snd (xs ! i)))"
    unfolding profit_compute_differences_map by (rule differences_nth [OF i])
  fix a b
  assume h: "snd (xs ! Suc i) = Fin a \<and> snd (xs ! i) = Fin b \<and>
             round64 a = Fin a \<and> round64 (a - b) = Fin (a - b)"
  then have addb: "fadd (fsub (Fin a) (Fin b)) (Fin b) = Fin a"
    by (intro fadd_back_exact) simp_all
  show "feq (fadd (snd (cash_compute_differences xs ! i)) (snd (xs ! i))) (snd (xs ! Suc i))"
    using h addb by (simp add: c feq_def)
  show "feq (fadd (snd (profit_compute_differences xs ! i)) (snd (xs ! i))) (snd (xs ! Suc i))"
    using h addb by (simp add: p feq_def)
qed

theorem compute_differences_entries_witness:
  "cash_compute_differences [(1, Fin 100), (2, Fin 150)] ! 0 = (2, Fin 50) \<and>
   profit_compute_differences [(1, Fin 100), (2, Fin 150)] ! 0 = (2, Fin 50) \<and>
   feq (fadd (snd (cash_compute_differences [(1, Fin 100), (2, Fin 150)] ! 0)) (Fin 100))
     (Fin 150)"
proof -
  have r1: "round64 150 = Fin 150" by code_simp
  have r2: "round64 50 = Fin 50" by code_simp
  show ?thesis
    using compute_differences_entries [of "[(1, Fin 100), (2, Fin 150)]"] r1 r2 by (simp add: feq_def)
qed

section \<open>The two copies agree\<close>

lemma profit_scan_eq: "profit_scan ds hi lo defs = cash_scan ds hi lo defs"
  by (induction ds hi lo defs rule: cash_scan.induct) simp_all

lemma sort_deficit_eq: "sort_deficit = deficit_sort"
  by (simp add: fun_eq_iff sort_deficit_def deficit_sort_def)

lemma profit_find_extremes_eq: "profit_find_extremes ds = cash_find_extremes ds"
  by (simp add: profit_find_extremes_def cash_find_extremes_def profit_scan_eq
      sort_deficit_eq)

lemma profit_compute_differences_eq:
  "profit_compute_differences xs = cash_compute_differences xs"
  by (simp add: profit_compute_differences_map cash_compute_differences_map)

text \<open>
  C8: the cash and the profit copies of \<^verbatim>\<open>compute_differences\<close> return the same list on
  every input, and so do the two copies of \<^verbatim>\<open>find_extremes\<close> (one sorts in place with
  \<^verbatim>\<open>list.sort\<close>, the other with \<^verbatim>\<open>sorted\<close>).
\<close>

theorem cash_profit_copies_equal:
  "cash_compute_differences xs = profit_compute_differences xs \<and>
   cash_find_extremes ds = profit_find_extremes ds"
  by (simp add: profit_compute_differences_eq profit_find_extremes_eq)

section \<open>The sort\<close>

lemma set_insort_by: "set (insort_by k x ys) = insert x (set ys)"
  by (induction ys) auto

lemma length_insort_by: "length (insort_by k x ys) = Suc (length ys)"
  by (induction ys) auto

lemma set_py_sorted: "set (py_sorted k xs) = set xs"
  by (induction xs) (simp_all add: py_sorted_def set_insort_by)

lemma length_py_sorted: "length (py_sorted k xs) = length xs"
  by (induction xs) (simp_all add: py_sorted_def length_insort_by)

lemma filter_insort_by:
  "filter (\<lambda>e. k e = v) (insort_by k x ys) =
     (if k x = v then x # filter (\<lambda>e. k e = v) ys else filter (\<lambda>e. k e = v) ys)"
  by (induction ys) (auto simp: flt_irrefl)

lemma py_sorted_stable: "filter (\<lambda>e. k e = v) (py_sorted k xs) = filter (\<lambda>e. k e = v) xs"
  by (induction xs) (simp_all add: py_sorted_def filter_insort_by)

lemma sorted_insort_by:
  assumes "sorted_wrt (\<lambda>a b. fle (k a) (k b)) ys" and "k x \<noteq> NaN"
    and "\<forall>y\<in>set ys. k y \<noteq> NaN"
  shows "sorted_wrt (\<lambda>a b. fle (k a) (k b)) (insort_by k x ys)"
  using assms
proof (induction ys)
  case Nil
  then show ?case by simp
next
  case (Cons y ys)
  show ?case
  proof (cases "flt (k y) (k x)")
    case True
    then have "fle (k y) (k x)" by (simp add: fle_def)
    with Cons True show ?thesis by (auto simp: set_insort_by)
  next
    case False
    with Cons.prems have xy: "fle (k x) (k y)" by (simp add: fle_iff_not_flt)
    have "fle (k x) (k z)" if "z \<in> set ys" for z
    proof -
      from Cons.prems that have yz: "fle (k y) (k z)" and "k z \<noteq> NaN" by auto
      with xy Cons.prems show ?thesis
        by (cases "k x"; cases "k y"; cases "k z") (auto simp: fle_def feq_def)
    qed
    with Cons.prems False xy show ?thesis by auto
  qed
qed

lemma sorted_py_sorted:
  assumes "\<forall>y\<in>set xs. k y \<noteq> NaN"
  shows "sorted_wrt (\<lambda>a b. fle (k a) (k b)) (py_sorted k xs)"
  using assms
proof (induction xs)
  case Nil
  then show ?case by (simp add: py_sorted_def)
next
  case (Cons x xs)
  then have "sorted_wrt (\<lambda>a b. fle (k a) (k b)) (py_sorted k xs)" by simp
  then have "sorted_wrt (\<lambda>a b. fle (k a) (k b)) (insort_by k x (py_sorted k xs))"
    using Cons.prems by (intro sorted_insort_by) (simp_all add: set_py_sorted)
  then show ?case by (simp add: py_sorted_def)
qed

section \<open>The extremes scan\<close>

lemma cash_scan_deficits:
  "snd (snd (cash_scan ds hi lo defs)) = defs @ filter (\<lambda>e. flt (snd e) (Fin 0)) ds"
  by (induction ds arbitrary: hi lo defs) (auto simp: num_lt_def)

lemma cash_top_deficits:
  "snd (snd (cash_find_extremes ds)) =
     take 3 (py_sorted snd (filter (\<lambda>e. flt (snd e) (Fin 0)) ds))"
proof -
  have d: "deficit_sort = snd" by (simp add: fun_eq_iff deficit_sort_def)
  obtain hi lo defs where s: "cash_scan ds (0, IntV 0) (0, IntV 0) [] = (hi, lo, defs)"
    by (metis prod_cases3)
  with cash_scan_deficits [of ds "(0, IntV 0)" "(0, IntV 0)" "[]"]
  have "defs = filter (\<lambda>e. flt (snd e) (Fin 0)) ds" by simp
  with s d show ?thesis by (simp add: cash_find_extremes_def)
qed

lemma top_deficits_rest:
  assumes "sorted_wrt (\<lambda>a b. fle (k a) (k b)) s" and "x \<in> set (take n s)" and "y \<in> set s"
  shows "fle (k x) (k y) \<or> y \<in> set (take n s)"
proof -
  from assms(1) have "sorted_wrt (\<lambda>a b. fle (k a) (k b)) (take n s @ drop n s)" by simp
  then have "\<forall>a\<in>set (take n s). \<forall>b\<in>set (drop n s). fle (k a) (k b)"
    unfolding sorted_wrt_append by blast
  moreover from assms(3) have "y \<in> set (take n s) \<or> y \<in> set (drop n s)"
    by (metis Un_iff append_take_drop_id set_append)
  ultimately show ?thesis using assms(2) by blast
qed

text \<open>
  C3: for every delta sequence, \<^verbatim>\<open>top_deficits\<close> has length \<open>min 3 k\<close>, where \<open>k\<close> is the
  number of entries with a delta below zero; it is in ascending order of delta; and for
  each delta value, the entries of \<^verbatim>\<open>top_deficits\<close> with that delta are the first such
  entries of the input, in the input's order (the sort is stable on the amount). Its
  entries are deficits of the input, and a deficit left out is no smaller than any entry
  kept. The profit copy returns the same list.
\<close>

theorem top_deficits_sorted_stable:
  "length (snd (snd (cash_find_extremes ds))) =
     min 3 (length (filter (\<lambda>e. flt (snd e) (Fin 0)) ds)) \<and>
   sorted_wrt (\<lambda>a b. fle (snd a) (snd b)) (snd (snd (cash_find_extremes ds))) \<and>
   (\<forall>v. prefix (filter (\<lambda>e. snd e = v) (snd (snd (cash_find_extremes ds))))
          (filter (\<lambda>e. snd e = v) ds)) \<and>
   (\<forall>x\<in>set (snd (snd (cash_find_extremes ds))). x \<in> set ds \<and> flt (snd x) (Fin 0)) \<and>
   (\<forall>x\<in>set (snd (snd (cash_find_extremes ds))). \<forall>y\<in>set ds.
      flt (snd y) (Fin 0) \<longrightarrow>
      fle (snd x) (snd y) \<or> y \<in> set (snd (snd (cash_find_extremes ds)))) \<and>
   snd (snd (profit_find_extremes ds)) = snd (snd (cash_find_extremes ds))"
proof -
  let ?D = "filter (\<lambda>e. flt (snd e) (Fin 0)) ds"
  let ?s = "py_sorted snd ?D"
  have top: "snd (snd (cash_find_extremes ds)) = take 3 ?s" by (rule cash_top_deficits)
  have nonan: "\<forall>y\<in>set ?D. snd y \<noteq> NaN" by (auto dest: flt_not_NaN)
  have srt: "sorted_wrt (\<lambda>a b. fle (snd a) (snd b)) ?s"
    using nonan by (rule sorted_py_sorted)
  have len: "length (take 3 ?s) = min 3 (length ?D)"
    by (simp add: length_py_sorted min.commute)
  have srt3: "sorted_wrt (\<lambda>a b. fle (snd a) (snd b)) (take 3 ?s)"
    using srt by (rule sorted_wrt_take)
  have stable: "prefix (filter (\<lambda>e. snd e = v) (take 3 ?s)) (filter (\<lambda>e. snd e = v) ds)" for v
  proof -
    have "prefix (filter (\<lambda>e. snd e = v) (take 3 ?s)) (filter (\<lambda>e. snd e = v) ?s)"
      by (intro filter_mono_prefix take_is_prefix)
    also have "filter (\<lambda>e. snd e = v) ?s = filter (\<lambda>e. snd e = v) ?D"
      by (rule py_sorted_stable)
    finally have p: "prefix (filter (\<lambda>e. snd e = v) (take 3 ?s)) (filter (\<lambda>e. snd e = v) ?D)" .
    show ?thesis
    proof (cases "flt v (Fin 0)")
      case True
      then have "filter (\<lambda>e. snd e = v) ?D = filter (\<lambda>e. snd e = v) ds"
        by (auto intro: filter_cong)
      with p show ?thesis by simp
    next
      case False
      then have "filter (\<lambda>e. snd e = v) ?D = []"
        by (auto simp: filter_empty_conv)
      with p show ?thesis by simp
    qed
  qed
  have mem: "x \<in> set ds \<and> flt (snd x) (Fin 0)" if "x \<in> set (take 3 ?s)" for x
  proof -
    from that have "x \<in> set ?s" by (rule in_set_takeD)
    then show ?thesis by (simp add: set_py_sorted)
  qed
  have rest: "fle (snd x) (snd y) \<or> y \<in> set (take 3 ?s)"
    if "x \<in> set (take 3 ?s)" and "y \<in> set ds" and "flt (snd y) (Fin 0)" for x y
  proof -
    from that have "y \<in> set ?s" by (simp add: set_py_sorted)
    with srt that(1) show ?thesis by (rule top_deficits_rest)
  qed
  show ?thesis
    unfolding top profit_find_extremes_eq
    using len srt3 stable mem rest by blast
qed

theorem top_deficits_sorted_stable_witness:
  "snd (snd (cash_find_extremes
      [(1, Fin (- 5)), (2, Fin 3), (3, Fin (- 7)), (4, Fin (- 5)), (5, Fin (- 1))])) =
     [(3, Fin (- 7)), (1, Fin (- 5)), (4, Fin (- 5))] \<and>
   length (snd (snd (cash_find_extremes
      [(1, Fin (- 5)), (2, Fin 3), (3, Fin (- 7)), (4, Fin (- 5)), (5, Fin (- 1))]))) = 3 \<and>
   prefix (filter (\<lambda>e. snd e = Fin (- 5)) (snd (snd (cash_find_extremes
      [(1, Fin (- 5)), (2, Fin 3), (3, Fin (- 7)), (4, Fin (- 5)), (5, Fin (- 1))]))))
     [(1, Fin (- 5)), (4, Fin (- 5))] \<and>
   fle (Fin (- 7)) (Fin (- 1)) \<and>
   (3, Fin (- 7)) \<in> set [(1::int, Fin (- 5)), (2, Fin 3), (3, Fin (- 7)), (4, Fin (- 5)),
      (5, Fin (- 1))] \<and>
   flt (Fin (- 7)) (Fin 0)"
proof -
  let ?ds = "[(1::int, Fin (- 5)), (2, Fin 3), (3, Fin (- 7)), (4, Fin (- 5)), (5, Fin (- 1))]"
  have ev: "snd (snd (cash_find_extremes ?ds)) = [(3, Fin (- 7)), (1, Fin (- 5)), (4, Fin (- 5))]"
    by code_simp
  from top_deficits_sorted_stable [of ?ds]
  have len: "length (snd (snd (cash_find_extremes ?ds))) =
      min 3 (length (filter (\<lambda>e. flt (snd e) (Fin 0)) ?ds))"
    and pre: "prefix (filter (\<lambda>e. snd e = Fin (- 5)) (snd (snd (cash_find_extremes ?ds))))
          (filter (\<lambda>e. snd e = Fin (- 5)) ?ds)"
    and rest: "\<forall>x\<in>set (snd (snd (cash_find_extremes ?ds))). \<forall>y\<in>set ?ds.
      flt (snd y) (Fin 0) \<longrightarrow>
      fle (snd x) (snd y) \<or> y \<in> set (snd (snd (cash_find_extremes ?ds)))"
    and kept: "\<forall>x\<in>set (snd (snd (cash_find_extremes ?ds))).
      x \<in> set ?ds \<and> flt (snd x) (Fin 0)"
    by blast+
  have x: "(3, Fin (- 7)) \<in> set (snd (snd (cash_find_extremes ?ds)))" by (simp add: ev)
  have y: "(5, Fin (- 1)) \<in> set ?ds" by simp
  have neg: "flt (snd (5::int, Fin (- 1))) (Fin 0)" by simp
  have notin: "(5, Fin (- 1)) \<notin> set (snd (snd (cash_find_extremes ?ds)))" by (simp add: ev)
  from rest x y neg notin have "fle (snd (3::int, Fin (- 7))) (snd (5::int, Fin (- 1)))"
    by blast
  then have le: "fle (Fin (- 7)) (Fin (- 1))" by simp
  from len have l3: "length (snd (snd (cash_find_extremes ?ds))) = 3" by simp
  from pre have p5: "prefix (filter (\<lambda>e. snd e = Fin (- 5)) (snd (snd (cash_find_extremes ?ds))))
      [(1, Fin (- 5)), (4, Fin (- 5))]" by simp
  from kept x have "(3, Fin (- 7)) \<in> set ?ds \<and> flt (snd (3::int, Fin (- 7))) (Fin 0)"
    by blast
  then have k: "(3, Fin (- 7)) \<in> set ?ds \<and> flt (Fin (- 7)) (Fin 0)" by simp
  from ev l3 p5 le k show ?thesis by blast
qed

lemma cash_scan_hi_foldl:
  "fst (cash_scan ds hi lo defs) =
     foldl (\<lambda>h e. if flt (nval (snd h)) (snd e) then (fst e, FloatV (snd e)) else h) hi ds"
  by (induction ds arbitrary: hi lo defs) (auto simp: num_gt_def)

lemma running_max_foldl:
  fixes ds :: "daily list" and h :: extreme
  defines "step \<equiv> (\<lambda>h e. if flt (nval (snd h)) (snd e) then (fst e, FloatV (snd e)) else h)"
  shows "(foldl step h ds = h \<and> (\<forall>e\<in>set ds. \<not> flt (nval (snd h)) (snd e))) \<or>
         (\<exists>i<length ds. foldl step h ds = (fst (ds ! i), FloatV (snd (ds ! i))) \<and>
            flt (nval (snd h)) (snd (ds ! i)) \<and>
            (\<forall>j<length ds. \<not> flt (snd (ds ! i)) (snd (ds ! j))) \<and>
            (\<forall>j<i. snd (ds ! j) \<noteq> snd (ds ! i)))"
proof (induction ds rule: rev_induct)
  case Nil
  then show ?case by simp
next
  case (snoc e ds)
  let ?R = "foldl step h ds"
  from snoc consider
    (A) "?R = h" "\<forall>e\<in>set ds. \<not> flt (nval (snd h)) (snd e)"
    | (B) i where "i < length ds" "?R = (fst (ds ! i), FloatV (snd (ds ! i)))"
      "flt (nval (snd h)) (snd (ds ! i))"
      "\<forall>j<length ds. \<not> flt (snd (ds ! i)) (snd (ds ! j))"
      "\<forall>j<i. snd (ds ! j) \<noteq> snd (ds ! i)"
    by blast
  then show ?case
  proof cases
    case A
    show ?thesis
    proof (cases "flt (nval (snd h)) (snd e)")
      case True
      have 1: "foldl step h (ds @ [e]) = (fst e, FloatV (snd e))"
        using A True by (simp add: step_def)
      have 2: "\<not> flt (snd e) (snd ((ds @ [e]) ! j))" if "j < length (ds @ [e])" for j
      proof (cases "j < length ds")
        case True
        with A(2) have "\<not> flt (nval (snd h)) (snd (ds ! j))" by simp
        with \<open>flt (nval (snd h)) (snd e)\<close> have "\<not> flt (snd e) (snd (ds ! j))"
          by (blast intro: flt_trans)
        with True show ?thesis by (simp add: nth_append)
      next
        case False
        with that have "j = length ds" by simp
        then show ?thesis by (simp add: flt_irrefl)
      qed
      have 3: "snd ((ds @ [e]) ! j) \<noteq> snd e" if "j < length ds" for j
      proof -
        from that A(2) have "\<not> flt (nval (snd h)) (snd (ds ! j))" by simp
        with True have "snd (ds ! j) \<noteq> snd e" by auto
        with that show ?thesis by (simp add: nth_append)
      qed
      have "length ds < length (ds @ [e]) \<and>
          foldl step h (ds @ [e]) =
            (fst ((ds @ [e]) ! length ds), FloatV (snd ((ds @ [e]) ! length ds))) \<and>
          flt (nval (snd h)) (snd ((ds @ [e]) ! length ds)) \<and>
          (\<forall>j<length (ds @ [e]). \<not> flt (snd ((ds @ [e]) ! length ds)) (snd ((ds @ [e]) ! j))) \<and>
          (\<forall>j<length ds. snd ((ds @ [e]) ! j) \<noteq> snd ((ds @ [e]) ! length ds))"
        using 1 2 3 True by simp
      then show ?thesis by blast
    next
      case False
      with A show ?thesis by (simp add: step_def)
    qed
  next
    case B
    show ?thesis
    proof (cases "flt (snd (ds ! i)) (snd e)")
      case True
      have 1: "foldl step h (ds @ [e]) = (fst e, FloatV (snd e))"
        using B(2) True by (simp add: step_def)
      have 0: "flt (nval (snd h)) (snd e)"
        using B(3) True by (rule flt_trans)
      have 2: "\<not> flt (snd e) (snd ((ds @ [e]) ! j))" if "j < length (ds @ [e])" for j
      proof (cases "j < length ds")
        case jl: True
        with B(4) have "\<not> flt (snd (ds ! i)) (snd (ds ! j))" by simp
        with True have "\<not> flt (snd e) (snd (ds ! j))"
          by (blast intro: flt_trans)
        with jl show ?thesis by (simp add: nth_append)
      next
        case False
        with that have "j = length ds" by simp
        then show ?thesis by (simp add: flt_irrefl)
      qed
      have 3: "snd ((ds @ [e]) ! j) \<noteq> snd e" if "j < length ds" for j
      proof -
        from that B(4) have "\<not> flt (snd (ds ! i)) (snd (ds ! j))" by simp
        with True have "snd (ds ! j) \<noteq> snd e" by auto
        with that show ?thesis by (simp add: nth_append)
      qed
      have "length ds < length (ds @ [e]) \<and>
          foldl step h (ds @ [e]) =
            (fst ((ds @ [e]) ! length ds), FloatV (snd ((ds @ [e]) ! length ds))) \<and>
          flt (nval (snd h)) (snd ((ds @ [e]) ! length ds)) \<and>
          (\<forall>j<length (ds @ [e]). \<not> flt (snd ((ds @ [e]) ! length ds)) (snd ((ds @ [e]) ! j))) \<and>
          (\<forall>j<length ds. snd ((ds @ [e]) ! j) \<noteq> snd ((ds @ [e]) ! length ds))"
        using 0 1 2 3 by simp
      then show ?thesis by blast
    next
      case False
      have 1: "foldl step h (ds @ [e]) = (fst (ds ! i), FloatV (snd (ds ! i)))"
        using B(2) False by (simp add: step_def)
      have 2: "\<not> flt (snd (ds ! i)) (snd ((ds @ [e]) ! j))" if "j < length (ds @ [e])" for j
        using that B(4) False by (cases "j < length ds") (auto simp: nth_append less_Suc_eq)
      have "i < length (ds @ [e]) \<and>
          foldl step h (ds @ [e]) = (fst ((ds @ [e]) ! i), FloatV (snd ((ds @ [e]) ! i))) \<and>
          flt (nval (snd h)) (snd ((ds @ [e]) ! i)) \<and>
          (\<forall>j<length (ds @ [e]). \<not> flt (snd ((ds @ [e]) ! i)) (snd ((ds @ [e]) ! j))) \<and>
          (\<forall>j<i. snd ((ds @ [e]) ! j) \<noteq> snd ((ds @ [e]) ! i))"
        using 1 2 B(1,3,5) by (simp add: nth_append)
      then show ?thesis by blast
    qed
  qed
qed

lemma cash_highest_increase:
  "(fst (cash_find_extremes ds) = (0, IntV 0) \<and> (\<forall>e\<in>set ds. \<not> flt (Fin 0) (snd e))) \<or>
   (\<exists>i<length ds. fst (cash_find_extremes ds) = (fst (ds ! i), FloatV (snd (ds ! i))) \<and>
      flt (Fin 0) (snd (ds ! i)) \<and>
      (\<forall>j<length ds. \<not> flt (snd (ds ! i)) (snd (ds ! j))) \<and>
      (\<forall>j<i. snd (ds ! j) \<noteq> snd (ds ! i)))"
proof -
  have "fst (cash_find_extremes ds) = fst (cash_scan ds (0, IntV 0) (0, IntV 0) [])"
    by (simp add: cash_find_extremes_def split: prod.splits)
  then have "fst (cash_find_extremes ds) =
     foldl (\<lambda>h e. if flt (nval (snd h)) (snd e) then (fst e, FloatV (snd e)) else h)
       (0, IntV 0) ds"
    by (simp add: cash_scan_hi_foldl)
  with running_max_foldl [of "(0, IntV 0)" ds] show ?thesis by simp
qed

text \<open>
  C2: the running maximum of \<^verbatim>\<open>find_extremes\<close> starts from the sentinel \<open>(0, 0)\<close>. If
  every delta is \<open>\<le> 0\<close> (in particular if every delta is negative), the returned
  \<^verbatim>\<open>highest_increase\<close> is exactly the sentinel. Otherwise some delta is above zero, and
  the result is an entry of the input that no entry exceeds and that no earlier entry
  equals: among the entries that tie for the maximum, the first one. Both copies behave
  so.
\<close>

theorem highest_increase_sentinel_first_tie:
  "((\<forall>e\<in>set ds. fle (snd e) (Fin 0)) \<longrightarrow>
      fst (cash_find_extremes ds) = (0, IntV 0) \<and>
      fst (profit_find_extremes ds) = (0, IntV 0)) \<and>
   ((\<exists>e\<in>set ds. flt (Fin 0) (snd e)) \<longrightarrow>
      (\<exists>i<length ds.
         fst (cash_find_extremes ds) = (fst (ds ! i), FloatV (snd (ds ! i))) \<and>
         fst (profit_find_extremes ds) = (fst (ds ! i), FloatV (snd (ds ! i))) \<and>
         (\<forall>j<length ds. \<not> flt (snd (ds ! i)) (snd (ds ! j))) \<and>
         (\<forall>j<i. snd (ds ! j) \<noteq> snd (ds ! i))))"
proof (intro conjI impI)
  assume le: "\<forall>e\<in>set ds. fle (snd e) (Fin 0)"
  have "\<not> flt (Fin 0) (snd e)" if "e \<in> set ds" for e
  proof -
    from le that have "fle (snd e) (Fin 0)" by simp
    then show ?thesis by (cases "snd e") (auto simp: fle_def feq_def)
  qed
  with cash_highest_increase [of ds]
  have "fst (cash_find_extremes ds) = (0, IntV 0)" by (metis nth_mem)
  then show "fst (cash_find_extremes ds) = (0, IntV 0)"
    and "fst (profit_find_extremes ds) = (0, IntV 0)"
    by (simp_all add: profit_find_extremes_eq)
next
  assume "\<exists>e\<in>set ds. flt (Fin 0) (snd e)"
  with cash_highest_increase [of ds]
  show "\<exists>i<length ds.
         fst (cash_find_extremes ds) = (fst (ds ! i), FloatV (snd (ds ! i))) \<and>
         fst (profit_find_extremes ds) = (fst (ds ! i), FloatV (snd (ds ! i))) \<and>
         (\<forall>j<length ds. \<not> flt (snd (ds ! i)) (snd (ds ! j))) \<and>
         (\<forall>j<i. snd (ds ! j) \<noteq> snd (ds ! i))"
    unfolding profit_find_extremes_eq by blast
qed

theorem highest_increase_sentinel_first_tie_witness:
  "fst (cash_find_extremes [(2, Fin (- 5)), (3, Fin 0)]) = (0, IntV 0) \<and>
   fst (cash_find_extremes [(2, Fin 50), (3, Fin 50), (4, Fin 10)]) = (2, FloatV (Fin 50))"
proof -
  let ?a = "[(2::int, Fin (- 5)), (3, Fin 0)]"
  let ?b = "[(2::int, Fin 50), (3, Fin 50), (4, Fin 10)]"
  have ha: "\<forall>e\<in>set ?a. fle (snd e) (Fin 0)" by (simp add: fle_def feq_def)
  have hb: "\<exists>e\<in>set ?b. flt (Fin 0) (snd e)" by simp
  from highest_increase_sentinel_first_tie [of ?a] ha
  have a: "fst (cash_find_extremes ?a) = (0, IntV 0)" by blast
  from highest_increase_sentinel_first_tie [of ?b] hb
  obtain i where i: "i < length ?b"
    "fst (cash_find_extremes ?b) = (fst (?b ! i), FloatV (snd (?b ! i)))"
    "\<forall>j<length ?b. \<not> flt (snd (?b ! i)) (snd (?b ! j))"
    "\<forall>j<i. snd (?b ! j) \<noteq> snd (?b ! i)"
    by blast
  from i(1) have "i = 0 \<or> i = 1 \<or> i = 2" by auto
  then have "i = 0"
  proof (elim disjE)
    assume "i = 1"
    moreover from i(4) have "0 < i \<longrightarrow> snd (?b ! 0) \<noteq> snd (?b ! i)" by blast
    ultimately show ?thesis by simp
  next
    assume "i = 2"
    moreover from i(3) have "0 < length ?b \<longrightarrow> \<not> flt (snd (?b ! i)) (snd (?b ! 0))" by blast
    ultimately show ?thesis by simp
  qed
  with i(2) have "fst (cash_find_extremes ?b) = (2, FloatV (Fin 50))" by simp
  with a show ?thesis by simp
qed

section \<open>The sign invariant of the scan\<close>

lemma sign_exclusive:
  assumes "fge h (Fin 0)" and "fle l (Fin 0)"
  shows "\<not> (flt h d \<and> flt d l)"
  using assms by (cases h; cases l; cases d) (auto simp: fge_def fle_def feq_def)

lemma sign_step_hi: "fge h (Fin 0) \<Longrightarrow> flt h d \<Longrightarrow> fge d (Fin 0)"
  by (cases h; cases d) (auto simp: fge_def fle_def feq_def)

lemma sign_step_lo: "fle l (Fin 0) \<Longrightarrow> flt d l \<Longrightarrow> fle d (Fin 0)"
  by (cases l; cases d) (auto simp: fle_def feq_def)

lemma cash_scan_sign:
  assumes "fge (nval (snd hi)) (Fin 0)" and "fle (nval (snd lo)) (Fin 0)"
  shows "fge (nval (snd (fst (cash_scan ds hi lo defs)))) (Fin 0) \<and>
         fle (nval (snd (fst (snd (cash_scan ds hi lo defs))))) (Fin 0)"
  using assms
proof (induction ds arbitrary: hi lo defs)
  case Nil
  then show ?case by simp
next
  case (Cons e ds)
  obtain day d where e: "e = (day, d)" by (cases e)
  show ?case
  proof (cases "flt (nval (snd hi)) d")
    case True
    with Cons.prems have "fge d (Fin 0)" by (blast intro: sign_step_hi)
    with Cons.prems True e show ?thesis
      by (simp add: num_gt_def Cons.IH)
  next
    case False
    show ?thesis
    proof (cases "flt d (nval (snd lo))")
      case True
      with Cons.prems have "fle d (Fin 0)" by (blast intro: sign_step_lo)
      with Cons.prems True False e show ?thesis
        by (simp add: num_gt_def num_lt_def Cons.IH)
    next
      case lo: False
      with Cons.prems False e show ?thesis
        by (simp add: num_gt_def num_lt_def Cons.IH)
    qed
  qed
qed

lemma cash_scan_unguarded:
  assumes "fge (nval (snd hi)) (Fin 0)" and "fle (nval (snd lo)) (Fin 0)"
  shows "cash_scan ds hi lo defs = unguarded_scan ds hi lo defs"
  using assms
proof (induction ds arbitrary: hi lo defs)
  case Nil
  then show ?case by simp
next
  case (Cons e ds)
  obtain day d where e: "e = (day, d)" by (cases e)
  from Cons.prems have ex: "\<not> (flt (nval (snd hi)) d \<and> flt d (nval (snd lo)))"
    by (rule sign_exclusive)
  show ?case
  proof (cases "flt (nval (snd hi)) d")
    case True
    with ex have nlo: "\<not> flt d (nval (snd lo))" by simp
    from Cons.prems True have "fge d (Fin 0)" by (blast intro: sign_step_hi)
    with Cons.prems True nlo e show ?thesis
      by (simp add: num_gt_def num_lt_def Cons.IH)
  next
    case False
    show ?thesis
    proof (cases "flt d (nval (snd lo))")
      case True
      with Cons.prems have "fle d (Fin 0)" by (blast intro: sign_step_lo)
      with Cons.prems True False e show ?thesis
        by (simp add: num_gt_def num_lt_def Cons.IH)
    next
      case lo: False
      with Cons.prems False e show ?thesis
        by (simp add: num_gt_def num_lt_def Cons.IH)
    qed
  qed
qed

lemma sentinel_sign: "fge (nval (snd (0::int, IntV 0))) (Fin 0) \<and> fle (nval (snd (0::int, IntV 0))) (Fin 0)"
  by (simp add: fge_def fle_def feq_def)

lemma cash_find_extremes_fst:
  "fst (cash_find_extremes ds) = fst (cash_scan ds (0, IntV 0) (0, IntV 0) []) \<and>
   fst (snd (cash_find_extremes ds)) = fst (snd (cash_scan ds (0, IntV 0) (0, IntV 0) []))"
  by (simp add: cash_find_extremes_def split: prod.splits)

text \<open>
  C10: after every number of steps of the scan from the sentinels, the running maximum is
  \<open>\<ge> 0\<close> and the running minimum is \<open>\<le> 0\<close>, so no delta is above the first and below
  the second at once; the returned \<^verbatim>\<open>highest_increase\<close> and \<^verbatim>\<open>highest_decrease\<close> have these
  signs; and \<^verbatim>\<open>find_extremes\<close> (either copy) returns what the scan with two independent
  tests returns.
\<close>

theorem extremes_sign_invariant_unguarded:
  "(\<forall>n. num_ge (snd (fst (cash_scan (take n ds) (0, IntV 0) (0, IntV 0) []))) (IntV 0) \<and>
        num_le (snd (fst (snd (cash_scan (take n ds) (0, IntV 0) (0, IntV 0) [])))) (IntV 0) \<and>
        num_ge (snd (fst (profit_scan (take n ds) (0, IntV 0) (0, IntV 0) []))) (IntV 0) \<and>
        num_le (snd (fst (snd (profit_scan (take n ds) (0, IntV 0) (0, IntV 0) [])))) (IntV 0) \<and>
        (\<forall>d. \<not> (num_gt (FloatV d) (snd (fst (cash_scan (take n ds) (0, IntV 0) (0, IntV 0) []))) \<and>
                 num_lt (FloatV d)
                   (snd (fst (snd (cash_scan (take n ds) (0, IntV 0) (0, IntV 0) []))))))) \<and>
   num_ge (snd (fst (cash_find_extremes ds))) (IntV 0) \<and>
   num_le (snd (fst (snd (cash_find_extremes ds)))) (IntV 0) \<and>
   num_ge (snd (fst (profit_find_extremes ds))) (IntV 0) \<and>
   num_le (snd (fst (snd (profit_find_extremes ds)))) (IntV 0) \<and>
   cash_find_extremes ds = find_extremes_unguarded ds \<and>
   profit_find_extremes ds = find_extremes_unguarded ds"
proof -
  have inv: "fge (nval (snd (fst (cash_scan xs (0, IntV 0) (0, IntV 0) [])))) (Fin 0) \<and>
      fle (nval (snd (fst (snd (cash_scan xs (0, IntV 0) (0, IntV 0) []))))) (Fin 0)" for xs
    using sentinel_sign by (intro cash_scan_sign) simp_all
  have excl: "\<not> (flt (nval (snd (fst (cash_scan xs (0, IntV 0) (0, IntV 0) [])))) d \<and>
      flt d (nval (snd (fst (snd (cash_scan xs (0, IntV 0) (0, IntV 0) []))))))" for xs d
    using inv [of xs] by (intro sign_exclusive) simp_all
  have eq: "cash_find_extremes ds = find_extremes_unguarded ds"
    using sentinel_sign
    by (simp add: cash_find_extremes_def find_extremes_unguarded_def cash_scan_unguarded)
  have res: "fge (nval (snd (fst (cash_find_extremes ds)))) (Fin 0) \<and>
      fle (nval (snd (fst (snd (cash_find_extremes ds))))) (Fin 0)"
    using inv [of ds] by (simp add: cash_find_extremes_fst)
  have steps: "\<forall>n. num_ge (snd (fst (cash_scan (take n ds) (0, IntV 0) (0, IntV 0) []))) (IntV 0) \<and>
        num_le (snd (fst (snd (cash_scan (take n ds) (0, IntV 0) (0, IntV 0) [])))) (IntV 0) \<and>
        num_ge (snd (fst (profit_scan (take n ds) (0, IntV 0) (0, IntV 0) []))) (IntV 0) \<and>
        num_le (snd (fst (snd (profit_scan (take n ds) (0, IntV 0) (0, IntV 0) [])))) (IntV 0) \<and>
        (\<forall>d. \<not> (num_gt (FloatV d) (snd (fst (cash_scan (take n ds) (0, IntV 0) (0, IntV 0) []))) \<and>
                 num_lt (FloatV d)
                   (snd (fst (snd (cash_scan (take n ds) (0, IntV 0) (0, IntV 0) []))))))"
    using inv excl
    by (simp add: num_ge_def num_le_def num_gt_def num_lt_def profit_scan_eq)
  have signs: "num_ge (snd (fst (cash_find_extremes ds))) (IntV 0) \<and>
      num_le (snd (fst (snd (cash_find_extremes ds)))) (IntV 0) \<and>
      num_ge (snd (fst (profit_find_extremes ds))) (IntV 0) \<and>
      num_le (snd (fst (snd (profit_find_extremes ds)))) (IntV 0)"
    using res by (simp add: num_ge_def num_le_def profit_find_extremes_eq)
  have "profit_find_extremes ds = find_extremes_unguarded ds"
    using eq by (simp add: profit_find_extremes_eq)
  with steps signs eq show ?thesis by blast
qed

section \<open>The overhead ranker\<close>

lemma highest_scan_foldl:
  "highest_scan rs h =
     foldl (\<lambda>h e. if flt (nval (overhead h)) (nval (overhead e)) then e else h) h rs"
  by (induction rs arbitrary: h) (simp_all add: num_gt_def)

lemma first_maximum_foldl:
  fixes val :: "'a \<Rightarrow> pyfloat"
  defines "step \<equiv> (\<lambda>h e. if flt (val h) (val e) then e else h)"
  shows "(foldl step h rs = h \<and> (\<forall>e\<in>set rs. \<not> flt (val h) (val e))) \<or>
         (\<exists>i<length rs. foldl step h rs = rs ! i \<and> flt (val h) (val (rs ! i)) \<and>
            (\<forall>j<length rs. \<not> flt (val (rs ! i)) (val (rs ! j))) \<and>
            (\<forall>j<i. val (rs ! j) \<noteq> val (rs ! i)))"
proof (induction rs rule: rev_induct)
  case Nil
  then show ?case by simp
next
  case (snoc e rs)
  let ?R = "foldl step h rs"
  let ?rs = "rs @ [e]"
  have new: ?case
    if R: "foldl step h ?rs = e" and above: "flt (val h) (val e)"
      and old: "\<forall>j<length rs. \<not> flt (val e) (val (rs ! j)) \<and> val (rs ! j) \<noteq> val e"
  proof -
    have "\<not> flt (val (?rs ! length rs)) (val (?rs ! j))" if "j < length ?rs" for j
      using that old by (cases "j < length rs") (auto simp: nth_append flt_irrefl)
    moreover have "val (?rs ! j) \<noteq> val (?rs ! length rs)" if "j < length rs" for j
      using that old by (simp add: nth_append)
    ultimately have "length rs < length ?rs \<and> foldl step h ?rs = ?rs ! length rs \<and>
        flt (val h) (val (?rs ! length rs)) \<and>
        (\<forall>j<length ?rs. \<not> flt (val (?rs ! length rs)) (val (?rs ! j))) \<and>
        (\<forall>j<length rs. val (?rs ! j) \<noteq> val (?rs ! length rs))"
      using R above by simp
    then show ?thesis by blast
  qed
  from snoc consider
    (A) "?R = h" "\<forall>e\<in>set rs. \<not> flt (val h) (val e)"
    | (B) i where "i < length rs" "?R = rs ! i" "flt (val h) (val (rs ! i))"
      "\<forall>j<length rs. \<not> flt (val (rs ! i)) (val (rs ! j))"
      "\<forall>j<i. val (rs ! j) \<noteq> val (rs ! i)"
    by blast
  then show ?case
  proof cases
    case A
    show ?thesis
    proof (cases "flt (val h) (val e)")
      case True
      have "\<not> flt (val e) (val (rs ! j)) \<and> val (rs ! j) \<noteq> val e" if "j < length rs" for j
      proof -
        from that A(2) have "\<not> flt (val h) (val (rs ! j))" by simp
        with True show ?thesis by (auto intro: flt_trans)
      qed
      moreover have "foldl step h ?rs = e" using A True by (simp add: step_def)
      ultimately show ?thesis using True by (intro new) simp_all
    next
      case False
      with A show ?thesis by (simp add: step_def)
    qed
  next
    case B
    show ?thesis
    proof (cases "flt (val (rs ! i)) (val e)")
      case True
      have "\<not> flt (val e) (val (rs ! j)) \<and> val (rs ! j) \<noteq> val e" if "j < length rs" for j
      proof -
        from that B(4) have "\<not> flt (val (rs ! i)) (val (rs ! j))" by simp
        with True show ?thesis by (auto intro: flt_trans)
      qed
      moreover have "foldl step h ?rs = e" using B(2) True by (simp add: step_def)
      moreover have "flt (val h) (val e)" using B(3) True by (rule flt_trans)
      ultimately show ?thesis by (intro new) simp_all
    next
      case False
      have 1: "foldl step h ?rs = rs ! i"
        using B(2) False by (simp add: step_def)
      have 2: "\<not> flt (val (rs ! i)) (val (?rs ! j))" if "j < length ?rs" for j
        using that B(4) False by (cases "j < length rs") (auto simp: nth_append less_Suc_eq)
      have "i < length ?rs \<and> foldl step h ?rs = ?rs ! i \<and> flt (val h) (val (?rs ! i)) \<and>
          (\<forall>j<length ?rs. \<not> flt (val (?rs ! i)) (val (?rs ! j))) \<and>
          (\<forall>j<i. val (?rs ! j) \<noteq> val (?rs ! i))"
        using 1 2 B(1,3,5) by (simp add: nth_append)
      then show ?thesis by blast
    qed
  qed
qed

lemma highest_overhead_cases:
  "(find_highest_overhead rs = \<lparr>category = '''', overhead = IntV 0\<rparr> \<and>
      (\<forall>r\<in>set rs. \<not> flt (Fin 0) (nval (overhead r)))) \<or>
   (\<exists>i<length rs. find_highest_overhead rs = rs ! i \<and>
      flt (Fin 0) (nval (overhead (rs ! i))) \<and>
      (\<forall>j<length rs. \<not> flt (nval (overhead (rs ! i))) (nval (overhead (rs ! j)))) \<and>
      (\<forall>j<i. nval (overhead (rs ! j)) \<noteq> nval (overhead (rs ! i))))"
  using first_maximum_foldl [of "\<lambda>r. nval (overhead r)" "\<lparr>category = '''', overhead = IntV 0\<rparr>" rs]
  by (simp add: find_highest_overhead_def highest_scan_foldl)

lemma highest_overhead_not_exceeded:
  assumes "r \<in> set rs"
  shows "\<not> flt (nval (overhead (find_highest_overhead rs))) (nval (overhead r))"
proof -
  from assms obtain j where j: "j < length rs" "rs ! j = r"
    by (auto simp: in_set_conv_nth)
  from highest_overhead_cases [of rs] show ?thesis
  proof (elim disjE conjE exE)
    assume "find_highest_overhead rs = \<lparr>category = '''', overhead = IntV 0\<rparr>"
      and "\<forall>r\<in>set rs. \<not> flt (Fin 0) (nval (overhead r))"
    with assms show ?thesis by simp
  next
    fix i
    assume "find_highest_overhead rs = rs ! i"
      and "\<forall>j<length rs. \<not> flt (nval (overhead (rs ! i))) (nval (overhead (rs ! j)))"
    with j show ?thesis by auto
  qed
qed

lemma highest_overhead_not_NaN: "nval (overhead (find_highest_overhead rs)) \<noteq> NaN"
  using highest_overhead_cases [of rs] by (auto dest: flt_not_NaN)

text \<open>
  C6, as stated, fails when an input amount is NaN (the reader builds amounts with
  \<^verbatim>\<open>float(...)\<close>, which accepts \<^verbatim>\<open>nan\<close>): the test \<^verbatim>\<open>nan > 0\<close> is false, the sentinel is
  returned, and \<^verbatim>\<open>0 >= nan\<close> is false as well.
\<close>

theorem find_highest_overhead_nan_counterexample:
  "find_highest_overhead [\<lparr>category = ''Rent'', overhead = FloatV NaN\<rparr>] =
     \<lparr>category = '''', overhead = IntV 0\<rparr> \<and>
   \<not> num_ge (overhead (find_highest_overhead [\<lparr>category = ''Rent'', overhead = FloatV NaN\<rparr>]))
         (overhead \<lparr>category = ''Rent'', overhead = FloatV NaN\<rparr>)"
  by (simp add: find_highest_overhead_def num_gt_def num_ge_def fge_def fle_def feq_def)

text \<open>
  C6, amended: the record \<^verbatim>\<open>find_highest_overhead\<close> returns has an amount that no input
  amount exceeds, and that is \<open>\<ge>\<close> every input amount that is not NaN. The scan starts
  from the sentinel with category \<^verbatim>\<open>''\<close> and amount \<^verbatim>\<open>0\<close>: if no input amount is above
  zero, the sentinel itself is returned; otherwise the result is the first input record
  that no record exceeds (of the records that tie for the maximum, the first).
\<close>

theorem find_highest_overhead_maximal:
  "(\<forall>r\<in>set rs. \<not> num_gt (overhead r) (overhead (find_highest_overhead rs))) \<and>
   (\<forall>r\<in>set rs. nval (overhead r) \<noteq> NaN \<longrightarrow>
      num_ge (overhead (find_highest_overhead rs)) (overhead r)) \<and>
   ((\<forall>r\<in>set rs. \<not> num_gt (overhead r) (IntV 0)) \<longrightarrow>
      find_highest_overhead rs = \<lparr>category = '''', overhead = IntV 0\<rparr>) \<and>
   ((\<exists>r\<in>set rs. num_gt (overhead r) (IntV 0)) \<longrightarrow>
      (\<exists>i<length rs. find_highest_overhead rs = rs ! i \<and>
         (\<forall>j<length rs. \<not> num_gt (overhead (rs ! j)) (overhead (rs ! i))) \<and>
         (\<forall>j<i. nval (overhead (rs ! j)) \<noteq> nval (overhead (rs ! i)))))"
proof (intro conjI ballI impI)
  fix r assume "r \<in> set rs"
  then show "\<not> num_gt (overhead r) (overhead (find_highest_overhead rs))"
    by (simp add: num_gt_def highest_overhead_not_exceeded)
next
  fix r assume r: "r \<in> set rs" and n: "nval (overhead r) \<noteq> NaN"
  from r have "\<not> flt (nval (overhead (find_highest_overhead rs))) (nval (overhead r))"
    by (rule highest_overhead_not_exceeded)
  with n highest_overhead_not_NaN [of rs]
  show "num_ge (overhead (find_highest_overhead rs)) (overhead r)"
    by (simp add: num_ge_def fge_def fle_iff_not_flt)
next
  assume "\<forall>r\<in>set rs. \<not> num_gt (overhead r) (IntV 0)"
  then have "\<forall>r\<in>set rs. \<not> flt (Fin 0) (nval (overhead r))"
    by (simp add: num_gt_def)
  with highest_overhead_cases [of rs]
  show "find_highest_overhead rs = \<lparr>category = '''', overhead = IntV 0\<rparr>"
    by (metis nth_mem)
next
  assume "\<exists>r\<in>set rs. num_gt (overhead r) (IntV 0)"
  then have "\<exists>r\<in>set rs. flt (Fin 0) (nval (overhead r))"
    by (simp add: num_gt_def)
  with highest_overhead_cases [of rs]
  show "\<exists>i<length rs. find_highest_overhead rs = rs ! i \<and>
         (\<forall>j<length rs. \<not> num_gt (overhead (rs ! j)) (overhead (rs ! i))) \<and>
         (\<forall>j<i. nval (overhead (rs ! j)) \<noteq> nval (overhead (rs ! i)))"
    unfolding num_gt_def by blast
qed

theorem find_highest_overhead_maximal_witness:
  "num_ge (overhead (find_highest_overhead
      [\<lparr>category = ''Rent'', overhead = FloatV (Fin 40)\<rparr>,
       \<lparr>category = ''Payroll'', overhead = FloatV (Fin 55)\<rparr>,
       \<lparr>category = ''Bonus'', overhead = FloatV (Fin 55)\<rparr>]))
     (FloatV (Fin 55)) \<and>
   find_highest_overhead
      [\<lparr>category = ''Rent'', overhead = FloatV (Fin 40)\<rparr>,
       \<lparr>category = ''Payroll'', overhead = FloatV (Fin 55)\<rparr>,
       \<lparr>category = ''Bonus'', overhead = FloatV (Fin 55)\<rparr>] =
     \<lparr>category = ''Payroll'', overhead = FloatV (Fin 55)\<rparr> \<and>
   find_highest_overhead [\<lparr>category = ''Refund'', overhead = FloatV (Fin (- 3))\<rparr>] =
     \<lparr>category = '''', overhead = IntV 0\<rparr> \<and>
   \<not> num_gt (FloatV (Fin 55)) (overhead (find_highest_overhead
      [\<lparr>category = ''Rent'', overhead = FloatV (Fin 40)\<rparr>,
       \<lparr>category = ''Payroll'', overhead = FloatV (Fin 55)\<rparr>,
       \<lparr>category = ''Bonus'', overhead = FloatV (Fin 55)\<rparr>])) \<and>
   (\<exists>i<3. find_highest_overhead
      [\<lparr>category = ''Rent'', overhead = FloatV (Fin 40)\<rparr>,
       \<lparr>category = ''Payroll'', overhead = FloatV (Fin 55)\<rparr>,
       \<lparr>category = ''Bonus'', overhead = FloatV (Fin 55)\<rparr>] =
      [\<lparr>category = ''Rent'', overhead = FloatV (Fin 40)\<rparr>,
       \<lparr>category = ''Payroll'', overhead = FloatV (Fin 55)\<rparr>,
       \<lparr>category = ''Bonus'', overhead = FloatV (Fin 55)\<rparr>] ! i)"
proof -
  let ?rs = "[\<lparr>category = ''Rent'', overhead = FloatV (Fin 40)\<rparr>,
       \<lparr>category = ''Payroll'', overhead = FloatV (Fin 55)\<rparr>,
       \<lparr>category = ''Bonus'', overhead = FloatV (Fin 55)\<rparr>]"
  let ?neg = "[\<lparr>category = ''Refund'', overhead = FloatV (Fin (- 3))\<rparr>]"
  have ev: "find_highest_overhead ?rs = \<lparr>category = ''Payroll'', overhead = FloatV (Fin 55)\<rparr>"
    by (simp add: find_highest_overhead_def num_gt_def)
  have mem: "\<lparr>category = ''Bonus'', overhead = FloatV (Fin 55)\<rparr> \<in> set ?rs" by simp
  have nn: "nval (overhead \<lparr>category = ''Bonus'', overhead = FloatV (Fin 55)\<rparr>) \<noteq> NaN" by simp
  from find_highest_overhead_maximal [of ?rs] mem nn
  have ge: "num_ge (overhead (find_highest_overhead ?rs))
      (overhead \<lparr>category = ''Bonus'', overhead = FloatV (Fin 55)\<rparr>)"
    by blast
  have "\<forall>r\<in>set ?neg. \<not> num_gt (overhead r) (IntV 0)" by (simp add: num_gt_def)
  with find_highest_overhead_maximal [of ?neg]
  have "find_highest_overhead ?neg = \<lparr>category = '''', overhead = IntV 0\<rparr>" by blast
  moreover from find_highest_overhead_maximal [of ?rs] mem
  have ngt: "\<not> num_gt (overhead \<lparr>category = ''Bonus'', overhead = FloatV (Fin 55)\<rparr>)
      (overhead (find_highest_overhead ?rs))"
    by blast
  moreover have "\<exists>r\<in>set ?rs. num_gt (overhead r) (IntV 0)" by (simp add: num_gt_def)
  with find_highest_overhead_maximal [of ?rs]
  have "\<exists>i<length ?rs. find_highest_overhead ?rs = ?rs ! i" by blast
  then obtain i where i: "i < length ?rs" "find_highest_overhead ?rs = ?rs ! i" by blast
  from i(1) have "i < 3" by simp
  with i(2) have "\<exists>i<3. find_highest_overhead ?rs = ?rs ! i" by blast
  ultimately show ?thesis using ge ev by simp
qed

section \<open>The report\<close>

lemma gsr_cash_fail:
  assumes "read_cash_on_hand E w ''csv_reports/cash_on_hand.csv'' = Inl e"
  shows "generate_summary_report E w = (Inl e, w, [])"
  using assms by (simp add: generate_summary_report_def)

lemma gsr_overheads_fail:
  assumes "read_cash_on_hand E w ''csv_reports/cash_on_hand.csv'' = Inr c"
    and "read_overheads E w ''csv_reports/Overheads.csv'' = Inl e"
  shows "generate_summary_report E w = (Inl e, w, take 3 program_order)"
  using assms
  by (simp add: generate_summary_report_def program_order_def Let_def split: prod.splits)

lemma gsr_profit_fail:
  assumes "read_cash_on_hand E w ''csv_reports/cash_on_hand.csv'' = Inr c"
    and "read_overheads E w ''csv_reports/Overheads.csv'' = Inr ov"
    and "read_profit_loss E w ''csv_reports/Profit_and_Loss.csv'' = Inl e"
  shows "generate_summary_report E w = (Inl e, w, take 5 program_order)"
  using assms
  by (simp add: generate_summary_report_def program_order_def Let_def split: prod.splits)

lemma gsr_not_writable:
  assumes "read_cash_on_hand E w ''csv_reports/cash_on_hand.csv'' = Inr c"
    and "read_overheads E w ''csv_reports/Overheads.csv'' = Inr ov"
    and "read_profit_loss E w ''csv_reports/Profit_and_Loss.csv'' = Inr p"
    and "\<not> writable w ''summary_report.txt''"
  shows "generate_summary_report E w =
    (Inl (PermissionError ''summary_report.txt''), w, take 8 program_order)"
  using assms
  by (simp add: generate_summary_report_def program_order_def Let_def split: prod.splits)

lemma gsr_success:
  assumes "read_cash_on_hand E w ''csv_reports/cash_on_hand.csv'' = Inr c"
    and "read_overheads E w ''csv_reports/Overheads.csv'' = Inr ov"
    and "read_profit_loss E w ''csv_reports/Profit_and_Loss.csv'' = Inr p"
    and "writable w ''summary_report.txt''"
  shows "generate_summary_report E w =
    (Inr (),
     w\<lparr>text_files := (text_files w)(''summary_report.txt'' \<mapsto>
        concat ([overhead_line E (find_highest_overhead ov)] @
          cash_section E (cash_compute_differences c)
            (fst (cash_find_extremes (cash_compute_differences c)))
            (snd (snd (cash_find_extremes (cash_compute_differences c)))) @
          profit_section E (profit_compute_differences p)
            (fst (profit_find_extremes (profit_compute_differences p)))
            (snd (snd (profit_find_extremes (profit_compute_differences p))))))\<rparr>,
     program_order)"
  using assms
  by (simp add: generate_summary_report_def program_order_def Let_def split: prod.splits)

lemma gsr_cases:
  obtains (cash) e where "read_cash_on_hand E w ''csv_reports/cash_on_hand.csv'' = Inl e"
  | (overheads) c e where "read_cash_on_hand E w ''csv_reports/cash_on_hand.csv'' = Inr c"
      "read_overheads E w ''csv_reports/Overheads.csv'' = Inl e"
  | (profit) c ov e where "read_cash_on_hand E w ''csv_reports/cash_on_hand.csv'' = Inr c"
      "read_overheads E w ''csv_reports/Overheads.csv'' = Inr ov"
      "read_profit_loss E w ''csv_reports/Profit_and_Loss.csv'' = Inl e"
  | (locked) c ov p where "read_cash_on_hand E w ''csv_reports/cash_on_hand.csv'' = Inr c"
      "read_overheads E w ''csv_reports/Overheads.csv'' = Inr ov"
      "read_profit_loss E w ''csv_reports/Profit_and_Loss.csv'' = Inr p"
      "\<not> writable w ''summary_report.txt''"
  | (written) c ov p where "read_cash_on_hand E w ''csv_reports/cash_on_hand.csv'' = Inr c"
      "read_overheads E w ''csv_reports/Overheads.csv'' = Inr ov"
      "read_profit_loss E w ''csv_reports/Profit_and_Loss.csv'' = Inr p"
      "writable w ''summary_report.txt''"
  by (cases "read_cash_on_hand E w ''csv_reports/cash_on_hand.csv''";
      cases "read_overheads E w ''csv_reports/Overheads.csv''";
      cases "read_profit_loss E w ''csv_reports/Profit_and_Loss.csv''";
      cases "writable w ''summary_report.txt''") auto

lemma prefix_take: "prefix (take n xs) xs"
  by (rule take_is_prefix)

text \<open>
  C9, as stated, fails: in a run on well-formed inputs the two analysis steps on the cash
  data are logged before the overheads file and the profit file have been read.
\<close>

theorem reads_before_analysis_counterexample:
  "snd (snd (generate_summary_report example_env example_world)) =
     [ReadDone ''csv_reports/cash_on_hand.csv'',
      Analysis ''compute_cash_differences'',
      Analysis ''find_cash_extremes'',
      ReadDone ''csv_reports/Overheads.csv'',
      Analysis ''find_highest_overhead'',
      ReadDone ''csv_reports/Profit_and_Loss.csv'',
      Analysis ''compute_profit_differences'',
      Analysis ''find_profit_extremes'',
      OpenedForWrite ''summary_report.txt''] \<and>
   \<not> reads_before_analysis (snd (snd (generate_summary_report example_env example_world)))"
  by code_simp

text \<open>
  C9, amended: every run of \<^verbatim>\<open>generate_summary_report\<close> goes through an initial part of
  one fixed sequence: read the cash file, compute the cash differences, find the cash
  extremes, read the overheads file, find the highest overhead, read the profit file,
  compute the profit differences, find the profit extremes, open the output file; a run
  that ends without an exception goes through all of it. So each source is read to
  completion before the analysis of that source begins, and all three reads and every
  analysis step come before the output file is opened; but the reads and the analysis
  steps alternate, source by source.
\<close>

theorem run_follows_program_order:
  "prefix (snd (snd (generate_summary_report E w))) program_order \<and>
   (fst (generate_summary_report E w) = Inr () \<longrightarrow>
      snd (snd (generate_summary_report E w)) = program_order) \<and>
   program_order =
     [ReadDone ''csv_reports/cash_on_hand.csv'',
      Analysis ''compute_cash_differences'',
      Analysis ''find_cash_extremes'',
      ReadDone ''csv_reports/Overheads.csv'',
      Analysis ''find_highest_overhead'',
      ReadDone ''csv_reports/Profit_and_Loss.csv'',
      Analysis ''compute_profit_differences'',
      Analysis ''find_profit_extremes'',
      OpenedForWrite ''summary_report.txt'']"
proof (cases rule: gsr_cases [of E w])
  case (cash e)
  then show ?thesis by (simp add: gsr_cash_fail program_order_def)
next
  case (overheads c e)
  then show ?thesis
    using prefix_take [of 3 program_order] by (simp add: gsr_overheads_fail program_order_def)
next
  case (profit c ov e)
  then show ?thesis
    using prefix_take [of 5 program_order] by (simp add: gsr_profit_fail program_order_def)
next
  case (locked c ov p)
  then show ?thesis
    using prefix_take [of 8 program_order] by (simp add: gsr_not_writable program_order_def)
next
  case (written c ov p)
  then show ?thesis by (simp add: gsr_success program_order_def)
qed

theorem run_follows_program_order_witness:
  "fst (generate_summary_report example_env example_world) = Inr () \<and>
   snd (snd (generate_summary_report example_env example_world)) = program_order"
proof -
  have ok: "fst (generate_summary_report example_env example_world) = Inr ()"
    by code_simp
  with run_follows_program_order [of example_env example_world] show ?thesis by blast
qed

text \<open>
  C5: on the cash input \<open>[(1, 100.0), (2, 150.0), (3, 90.0), (4, 90.0)]\<close> (the amounts are
  floats, as the reader delivers them), \<^verbatim>\<open>compute_differences\<close> returns
  \<open>[(2, 50.0), (3, -60.0), (4, 0.0)]\<close>; \<^verbatim>\<open>find_extremes\<close> returns the highest increase
  \<open>(2, 50.0)\<close>, the highest decrease \<open>(3, -60.0)\<close> and the top deficits \<open>[(3, -60.0)]\<close>;
  and the cash section of the report is the deficit branch: the line
  \<^verbatim>\<open>[CASH DEFICIT] DAY: 3, AMOUNT: USD60.0\<close>, an empty line, the line
  \<^verbatim>\<open>[1ST HIGHEST CASH DEFICIT] DAY: 3, AMOUNT: USD60.0\<close>, an empty line. The amount is the
  absolute value, right after \<^verbatim>\<open>USD\<close>. The last two conjuncts run the whole program on
  files holding this cash data.
\<close>

theorem cash_round_trip_scenario:
  "cash_compute_differences [(1, Fin 100), (2, Fin 150), (3, Fin 90), (4, Fin 90)] =
     [(2, Fin 50), (3, Fin (- 60)), (4, Fin 0)] \<and>
   cash_find_extremes [(2, Fin 50), (3, Fin (- 60)), (4, Fin 0)] =
     ((2, FloatV (Fin 50)), (3, FloatV (Fin (- 60))), [(3, Fin (- 60))]) \<and>
   cash_section E [(2, Fin 50), (3, Fin (- 60)), (4, Fin 0)] (2, FloatV (Fin 50))
       [(3, Fin (- 60))] =
     [''[CASH DEFICIT] DAY: 3, AMOUNT: USD60.0\<newline>'',
      ''\<newline>'',
      ''[1ST HIGHEST CASH DEFICIT] DAY: 3, AMOUNT: USD60.0\<newline>'',
      ''\<newline>''] \<and>
   read_cash_on_hand example_env example_world ''csv_reports/cash_on_hand.csv'' =
     Inr [(1, Fin 100), (2, Fin 150), (3, Fin 90), (4, Fin 90)] \<and>
   text_files (fst (snd (generate_summary_report example_env example_world)))
       ''summary_report.txt'' =
     Some (''[HIGHEST OVERHEAD] PAYROLL: 55.0%\<newline>\<newline>'' @
           ''[CASH DEFICIT] DAY: 3, AMOUNT: USD60.0\<newline>\<newline>'' @
           ''[1ST HIGHEST CASH DEFICIT] DAY: 3, AMOUNT: USD60.0\<newline>\<newline>'' @
           ''[HIGHEST NET PROFIT SURPLUS] DAY: 3, AMOUNT: USD30.0\<newline>\<newline>'')"
proof (intro conjI)
  show "cash_compute_differences [(1, Fin 100), (2, Fin 150), (3, Fin 90), (4, Fin 90)] =
     [(2, Fin 50), (3, Fin (- 60)), (4, Fin 0)]"
    by code_simp
  show "cash_find_extremes [(2, Fin 50), (3, Fin (- 60)), (4, Fin 0)] =
     ((2, FloatV (Fin 50)), (3, FloatV (Fin (- 60))), [(3, Fin (- 60))])"
    by code_simp
  show "cash_section E [(2, Fin 50), (3, Fin (- 60)), (4, Fin 0)] (2, FloatV (Fin 50))
       [(3, Fin (- 60))] =
     [''[CASH DEFICIT] DAY: 3, AMOUNT: USD60.0\<newline>'',
      ''\<newline>'',
      ''[1ST HIGHEST CASH DEFICIT] DAY: 3, AMOUNT: USD60.0\<newline>'',
      ''\<newline>'']"
    by code_simp
  show "read_cash_on_hand example_env example_world ''csv_reports/cash_on_hand.csv'' =
     Inr [(1, Fin 100), (2, Fin 150), (3, Fin 90), (4, Fin 90)]"
    by code_simp
  show "text_files (fst (snd (generate_summary_report example_env example_world)))
       ''summary_report.txt'' =
     Some (''[HIGHEST OVERHEAD] PAYROLL: 55.0%\<newline>\<newline>'' @
           ''[CASH DEFICIT] DAY: 3, AMOUNT: USD60.0\<newline>\<newline>'' @
           ''[1ST HIGHEST CASH DEFICIT] DAY: 3, AMOUNT: USD60.0\<newline>\<newline>'' @
           ''[HIGHEST NET PROFIT SURPLUS] DAY: 3, AMOUNT: USD30.0\<newline>\<newline>'')"
    by code_simp
qed

lemma consistent_iff:
  "list_all (\<lambda>(_, difference). fge difference (Fin 0)) ds \<longleftrightarrow>
     (\<forall>e\<in>set ds. fge (snd e) (Fin 0))"
  by (auto simp: list_all_iff)

lemma two_blank_lines_not_single: "a @ [x] @ b @ [y] \<noteq> [z]"
proof
  assume "a @ [x] @ b @ [y] = [z]"
  then have "length (a @ [x] @ b @ [y]) = length [z]" by (rule arg_cong)
  then show False by simp
qed

text \<open>
  C4, as stated, fails on a delta that is NaN (the difference of two infinite amounts, or
  of an amount read from \<^verbatim>\<open>nan\<close>): no delta is negative, but \<^verbatim>\<open>nan >= 0\<close> is false, so
  the deficit branch is taken; it writes no deficit line, only its two empty lines.
\<close>

theorem surplus_branch_nan_counterexample:
  "cash_compute_differences [(1, Fin 1), (2, NaN)] = [(2, NaN)] \<and>
   \<not> flt NaN (Fin 0) \<and>
   cash_section example_env [(2, NaN)] (fst (cash_find_extremes [(2, NaN)]))
       (snd (snd (cash_find_extremes [(2, NaN)]))) =
     [''\<newline>'', ''\<newline>''] \<and>
   cash_section example_env [(2, NaN)] (fst (cash_find_extremes [(2, NaN)]))
       (snd (snd (cash_find_extremes [(2, NaN)]))) \<noteq>
     [''[HIGHEST CASH SURPLUS] DAY: 0, AMOUNT: USD0\<newline>\<newline>'']"
  by code_simp

text \<open>
  C4, amended: the cash section of the report is the single surplus line if and only if
  every cash delta satisfies \<^verbatim>\<open>delta >= 0\<close> (a NaN delta, which is not negative, does not:
  it selects the deficit branch). The test reads the delta sequence only, whatever the
  extremes passed along are. The profit section does the same on the profit deltas. In a
  run that writes the report, the sections are built from the full delta sequences.
\<close>

theorem surplus_branch_iff_all_nonnegative:
  "(cash_section E cash_differences cash_increase cash_deficits =
      [''[HIGHEST CASH SURPLUS] DAY: '' @ int_str (fst cash_increase) @
       '', AMOUNT: USD'' @ num_str E (snd cash_increase) @ nl @ nl]) =
     (\<forall>e\<in>set cash_differences. fge (snd e) (Fin 0)) \<and>
   (profit_section E profit_differences profit_increase profit_deficits =
      [''[HIGHEST NET PROFIT SURPLUS] DAY: '' @ int_str (fst profit_increase) @
       '', AMOUNT: USD'' @ num_str E (snd profit_increase) @ nl @ nl]) =
     (\<forall>e\<in>set profit_differences. fge (snd e) (Fin 0)) \<and>
   (read_cash_on_hand E w ''csv_reports/cash_on_hand.csv'' = Inr c \<and>
    read_overheads E w ''csv_reports/Overheads.csv'' = Inr ov \<and>
    read_profit_loss E w ''csv_reports/Profit_and_Loss.csv'' = Inr p \<and>
    writable w ''summary_report.txt'' \<longrightarrow>
    text_files (fst (snd (generate_summary_report E w))) ''summary_report.txt'' =
      Some (concat ([overhead_line E (find_highest_overhead ov)] @
          cash_section E (cash_compute_differences c)
            (fst (cash_find_extremes (cash_compute_differences c)))
            (snd (snd (cash_find_extremes (cash_compute_differences c)))) @
          profit_section E (profit_compute_differences p)
            (fst (profit_find_extremes (profit_compute_differences p)))
            (snd (snd (profit_find_extremes (profit_compute_differences p)))))))"
proof (intro conjI impI)
  show "(cash_section E cash_differences cash_increase cash_deficits =
      [''[HIGHEST CASH SURPLUS] DAY: '' @ int_str (fst cash_increase) @
       '', AMOUNT: USD'' @ num_str E (snd cash_increase) @ nl @ nl]) =
     (\<forall>e\<in>set cash_differences. fge (snd e) (Fin 0))"
    unfolding cash_section_def Let_def consistent_iff
    using two_blank_lines_not_single by (auto simp del: append_assoc append.simps)
  show "(profit_section E profit_differences profit_increase profit_deficits =
      [''[HIGHEST NET PROFIT SURPLUS] DAY: '' @ int_str (fst profit_increase) @
       '', AMOUNT: USD'' @ num_str E (snd profit_increase) @ nl @ nl]) =
     (\<forall>e\<in>set profit_differences. fge (snd e) (Fin 0))"
    unfolding profit_section_def Let_def consistent_iff
    using two_blank_lines_not_single by (auto simp del: append_assoc append.simps)
next
  assume "read_cash_on_hand E w ''csv_reports/cash_on_hand.csv'' = Inr c \<and>
    read_overheads E w ''csv_reports/Overheads.csv'' = Inr ov \<and>
    read_profit_loss E w ''csv_reports/Profit_and_Loss.csv'' = Inr p \<and>
    writable w ''summary_report.txt''"
  then have "generate_summary_report E w =
    (Inr (),
     w\<lparr>text_files := (text_files w)(''summary_report.txt'' \<mapsto>
        concat ([overhead_line E (find_highest_overhead ov)] @
          cash_section E (cash_compute_differences c)
            (fst (cash_find_extremes (cash_compute_differences c)))
            (snd (snd (cash_find_extremes (cash_compute_differences c)))) @
          profit_section E (profit_compute_differences p)
            (fst (profit_find_extremes (profit_compute_differences p)))
            (snd (snd (profit_find_extremes (profit_compute_differences p))))))\<rparr>,
     program_order)"
    by (intro gsr_success) simp_all
  then show "text_files (fst (snd (generate_summary_report E w))) ''summary_report.txt'' =
      Some (concat ([overhead_line E (find_highest_overhead ov)] @
          cash_section E (cash_compute_differences c)
            (fst (cash_find_extremes (cash_compute_differences c)))
            (snd (snd (cash_find_extremes (cash_compute_differences c)))) @
          profit_section E (profit_compute_differences p)
            (fst (profit_find_extremes (profit_compute_differences p)))
            (snd (snd (profit_find_extremes (profit_compute_differences p))))))"
    by simp
qed

theorem surplus_branch_iff_all_nonnegative_witness:
  "cash_section example_env [(2, Fin 20), (3, Fin 30)] (3, FloatV (Fin 30)) [] =
     [''[HIGHEST CASH SURPLUS] DAY: 3, AMOUNT: USD30.0\<newline>\<newline>''] \<and>
   profit_section example_env [(2, Fin 20), (3, Fin 30)] (3, FloatV (Fin 30)) [] =
     [''[HIGHEST NET PROFIT SURPLUS] DAY: 3, AMOUNT: USD30.0\<newline>\<newline>''] \<and>
   cash_section example_env [(2, Fin 20), (3, Fin (- 30))] (2, FloatV (Fin 20))
       [(3, Fin (- 30))] \<noteq>
     [''[HIGHEST CASH SURPLUS] DAY: 2, AMOUNT: USD20.0\<newline>\<newline>''] \<and>
   text_files (fst (snd (generate_summary_report example_env example_world)))
       ''summary_report.txt'' =
     Some (''[HIGHEST OVERHEAD] PAYROLL: 55.0%\<newline>\<newline>'' @
           ''[CASH DEFICIT] DAY: 3, AMOUNT: USD60.0\<newline>\<newline>'' @
           ''[1ST HIGHEST CASH DEFICIT] DAY: 3, AMOUNT: USD60.0\<newline>\<newline>'' @
           ''[HIGHEST NET PROFIT SURPLUS] DAY: 3, AMOUNT: USD30.0\<newline>\<newline>'')"
proof -
  let ?c = "[(1::int, Fin 100), (2, Fin 150), (3, Fin 90), (4, Fin 90)]"
  let ?ov = "[\<lparr>category = ''Rent'', overhead = FloatV (Fin 40)\<rparr>,
       \<lparr>category = ''Payroll'', overhead = FloatV (Fin 55)\<rparr>,
       \<lparr>category = ''Utilities'', overhead = FloatV (Fin 5)\<rparr>]"
  let ?p = "[(1::int, Fin 10), (2, Fin 30), (3, Fin 60)]"
  have rc: "read_cash_on_hand example_env example_world ''csv_reports/cash_on_hand.csv'' =
      Inr ?c"
    by code_simp
  have ro: "read_overheads example_env example_world ''csv_reports/Overheads.csv'' = Inr ?ov"
    by code_simp
  have rp: "read_profit_loss example_env example_world ''csv_reports/Profit_and_Loss.csv'' =
      Inr ?p"
    by code_simp
  have wr: "writable example_world ''summary_report.txt''"
    by (simp add: example_world_def)
  have body: "concat ([overhead_line example_env (find_highest_overhead ?ov)] @
          cash_section example_env (cash_compute_differences ?c)
            (fst (cash_find_extremes (cash_compute_differences ?c)))
            (snd (snd (cash_find_extremes (cash_compute_differences ?c)))) @
          profit_section example_env (profit_compute_differences ?p)
            (fst (profit_find_extremes (profit_compute_differences ?p)))
            (snd (snd (profit_find_extremes (profit_compute_differences ?p))))) =
     ''[HIGHEST OVERHEAD] PAYROLL: 55.0%\<newline>\<newline>'' @
     ''[CASH DEFICIT] DAY: 3, AMOUNT: USD60.0\<newline>\<newline>'' @
     ''[1ST HIGHEST CASH DEFICIT] DAY: 3, AMOUNT: USD60.0\<newline>\<newline>'' @
     ''[HIGHEST NET PROFIT SURPLUS] DAY: 3, AMOUNT: USD30.0\<newline>\<newline>''"
    by code_simp
  from surplus_branch_iff_all_nonnegative
    [where E = example_env and w = example_world and c = ?c and ov = ?ov and p = ?p]
    rc ro rp wr
  have "text_files (fst (snd (generate_summary_report example_env example_world)))
       ''summary_report.txt'' =
     Some (concat ([overhead_line example_env (find_highest_overhead ?ov)] @
          cash_section example_env (cash_compute_differences ?c)
            (fst (cash_find_extremes (cash_compute_differences ?c)))
            (snd (snd (cash_find_extremes (cash_compute_differences ?c)))) @
          profit_section example_env (profit_compute_differences ?p)
            (fst (profit_find_extremes (profit_compute_differences ?p)))
            (snd (snd (profit_find_extremes (profit_compute_differences ?p))))))"
    by blast
  then have d: "text_files (fst (snd (generate_summary_report example_env example_world)))
       ''summary_report.txt'' =
     Some (''[HIGHEST OVERHEAD] PAYROLL: 55.0%\<newline>\<newline>'' @
           ''[CASH DEFICIT] DAY: 3, AMOUNT: USD60.0\<newline>\<newline>'' @
           ''[1ST HIGHEST CASH DEFICIT] DAY: 3, AMOUNT: USD60.0\<newline>\<newline>'' @
           ''[HIGHEST NET PROFIT SURPLUS] DAY: 3, AMOUNT: USD30.0\<newline>\<newline>'')"
    unfolding body .
  let ?ds = "[(2::int, Fin 20), (3, Fin 30)]"
  let ?ng = "[(2::int, Fin 20), (3, Fin (- 30))]"
  have all: "\<forall>e\<in>set ?ds. fge (snd e) (Fin 0)"
    by (simp add: fge_def fle_def)
  have some: "\<not> (\<forall>e\<in>set ?ng. fge (snd e) (Fin 0))"
    by (simp add: fge_def fle_def feq_def)
  have l1: "''[HIGHEST CASH SURPLUS] DAY: '' @ int_str (fst (3::int, FloatV (Fin 30))) @
       '', AMOUNT: USD'' @ num_str example_env (snd (3::int, FloatV (Fin 30))) @ nl @ nl =
     ''[HIGHEST CASH SURPLUS] DAY: 3, AMOUNT: USD30.0\<newline>\<newline>''"
    by code_simp
  have l2: "''[HIGHEST NET PROFIT SURPLUS] DAY: '' @ int_str (fst (3::int, FloatV (Fin 30))) @
       '', AMOUNT: USD'' @ num_str example_env (snd (3::int, FloatV (Fin 30))) @ nl @ nl =
     ''[HIGHEST NET PROFIT SURPLUS] DAY: 3, AMOUNT: USD30.0\<newline>\<newline>''"
    by code_simp
  have l3: "''[HIGHEST CASH SURPLUS] DAY: '' @ int_str (fst (2::int, FloatV (Fin 20))) @
       '', AMOUNT: USD'' @ num_str example_env (snd (2::int, FloatV (Fin 20))) @ nl @ nl =
     ''[HIGHEST CASH SURPLUS] DAY: 2, AMOUNT: USD20.0\<newline>\<newline>''"
    by code_simp
  from surplus_branch_iff_all_nonnegative
    [of example_env ?ds "(3, FloatV (Fin 30))" "[]" ?ds "(3, FloatV (Fin 30))" "[]"] all
  have a: "cash_section example_env ?ds (3, FloatV (Fin 30)) [] =
      [''[HIGHEST CASH SURPLUS] DAY: '' @ int_str (fst (3::int, FloatV (Fin 30))) @
       '', AMOUNT: USD'' @ num_str example_env (snd (3::int, FloatV (Fin 30))) @ nl @ nl]"
    and b: "profit_section example_env ?ds (3, FloatV (Fin 30)) [] =
      [''[HIGHEST NET PROFIT SURPLUS] DAY: '' @ int_str (fst (3::int, FloatV (Fin 30))) @
       '', AMOUNT: USD'' @ num_str example_env (snd (3::int, FloatV (Fin 30))) @ nl @ nl]"
    by blast+
  from surplus_branch_iff_all_nonnegative
    [of example_env ?ng "(2, FloatV (Fin 20))" "[(3, Fin (- 30))]"] some
  have c: "cash_section example_env ?ng (2, FloatV (Fin 20)) [(3, Fin (- 30))] \<noteq>
      [''[HIGHEST CASH SURPLUS] DAY: '' @ int_str (fst (2::int, FloatV (Fin 20))) @
       '', AMOUNT: USD'' @ num_str example_env (snd (2::int, FloatV (Fin 20))) @ nl @ nl]"
    by blast
  from a b c d show ?thesis unfolding l1 l2 l3 by blast
qed

section \<open>The readers and malformed values\<close>

lemma cell_int_Some:
  "row col = Some s \<Longrightarrow>
   cell_int E row col = (case py_int E s of None \<Rightarrow> Inl ValueError | Some i \<Rightarrow> Inr i)"
  by (simp add: cell_int_def cell_def)

lemma cell_float_Some:
  "row col = Some s \<Longrightarrow>
   cell_float E row col = (case py_float E s of None \<Rightarrow> Inl ValueError | Some x \<Rightarrow> Inr x)"
  by (simp add: cell_float_def cell_def)

lemma cash_rows_value_error:
  assumes "\<forall>r\<in>set rows. r ''Day'' \<noteq> None \<and> r ''Cash On Hand'' \<noteq> None"
  shows "cash_rows E rows acc = Inl ValueError \<or>
    ((\<exists>xs. cash_rows E rows acc = Inr xs) \<and>
     (\<forall>r\<in>set rows. \<forall>s. (r ''Day'' = Some s \<longrightarrow> py_int E s \<noteq> None) \<and>
        (r ''Cash On Hand'' = Some s \<longrightarrow> py_float E s \<noteq> None)))"
  using assms
proof (induction rows arbitrary: acc)
  case Nil
  then show ?case by simp
next
  case (Cons r rows)
  then obtain a b where ab: "r ''Day'' = Some a" "r ''Cash On Hand'' = Some b" by auto
  show ?case
  proof (cases "py_int E a")
    case None
    with ab show ?thesis by (simp add: cell_int_Some)
  next
    case (Some day)
    show ?thesis
    proof (cases "py_float E b")
      case None
      with ab Some show ?thesis by (simp add: cell_int_Some cell_float_Some)
    next
      case (Some x)
      from Cons.prems have "\<forall>r\<in>set rows. r ''Day'' \<noteq> None \<and> r ''Cash On Hand'' \<noteq> None"
        by simp
      from Cons.IH [OF this, of "acc @ [(day, x)]"] ab \<open>py_int E a = Some day\<close> Some
      show ?thesis by (auto simp: cell_int_Some cell_float_Some)
    qed
  qed
qed

lemma profit_rows_value_error:
  assumes "\<forall>r\<in>set rows. r ''Day'' \<noteq> None \<and> r ''Net Profit'' \<noteq> None"
  shows "profit_rows E rows acc = Inl ValueError \<or>
    ((\<exists>xs. profit_rows E rows acc = Inr xs) \<and>
     (\<forall>r\<in>set rows. \<forall>s. (r ''Day'' = Some s \<longrightarrow> py_int E s \<noteq> None) \<and>
        (r ''Net Profit'' = Some s \<longrightarrow> py_float E s \<noteq> None)))"
  using assms
proof (induction rows arbitrary: acc)
  case Nil
  then show ?case by simp
next
  case (Cons r rows)
  then obtain a b where ab: "r ''Day'' = Some a" "r ''Net Profit'' = Some b" by auto
  show ?case
  proof (cases "py_int E a")
    case None
    with ab show ?thesis by (simp add: cell_int_Some)
  next
    case (Some day)
    show ?thesis
    proof (cases "py_float E b")
      case None
      with ab Some show ?thesis by (simp add: cell_int_Some cell_float_Some)
    next
      case (Some x)
      from Cons.prems have "\<forall>r\<in>set rows. r ''Day'' \<noteq> None \<and> r ''Net Profit'' \<noteq> None"
        by simp
      from Cons.IH [OF this, of "acc @ [(day, x)]"] ab \<open>py_int E a = Some day\<close> Some
      show ?thesis by (auto simp: cell_int_Some cell_float_Some)
    qed
  qed
qed

lemma overhead_rows_value_error:
  assumes "\<forall>r\<in>set rows. r ''Category'' \<noteq> None \<and> r ''Overheads'' \<noteq> None"
  shows "overhead_rows E rows acc = Inl ValueError \<or>
    ((\<exists>xs. overhead_rows E rows acc = Inr xs) \<and>
     (\<forall>r\<in>set rows. \<forall>s. r ''Overheads'' = Some s \<longrightarrow> py_float E s \<noteq> None))"
  using assms
proof (induction rows arbitrary: acc)
  case Nil
  then show ?case by simp
next
  case (Cons r rows)
  then obtain a b where ab: "r ''Category'' = Some a" "r ''Overheads'' = Some b" by auto
  show ?case
  proof (cases "py_float E b")
    case None
    with ab show ?thesis by (simp add: cell_def cell_float_Some)
  next
    case (Some x)
    from Cons.prems have "\<forall>r\<in>set rows. r ''Category'' \<noteq> None \<and> r ''Overheads'' \<noteq> None"
      by simp
    from Cons.IH [OF this, of "acc @ [\<lparr>category = a, overhead = FloatV x\<rparr>]"] ab Some
    show ?thesis by (auto simp: cell_def cell_float_Some)
  qed
qed

lemma gsr_unchanged_on_error:
  assumes "fst (generate_summary_report E w) = Inl e"
  shows "fst (snd (generate_summary_report E w)) = w \<and>
    OpenedForWrite ''summary_report.txt'' \<notin> set (snd (snd (generate_summary_report E w)))"
proof (cases rule: gsr_cases [of E w])
  case (cash e)
  then show ?thesis by (simp add: gsr_cash_fail)
next
  case (overheads c e)
  then show ?thesis by (simp add: gsr_overheads_fail program_order_def)
next
  case (profit c ov e)
  then show ?thesis by (simp add: gsr_profit_fail program_order_def)
next
  case (locked c ov p)
  then show ?thesis by (simp add: gsr_not_writable program_order_def)
next
  case (written c ov p)
  with assms show ?thesis by (simp add: gsr_success)
qed

text \<open>
  C7: take a run in which the three input files exist and every row has its columns, so
  that a value \<^verbatim>\<open>int\<close> or \<^verbatim>\<open>float\<close> rejects is the only possible fault. If some row of
  some file holds such a value (a \<^verbatim>\<open>Cash On Hand\<close> that is not a number, say), the run ends
  with \<^verbatim>\<open>ValueError\<close>, Python's exception for a failed coercion (the specification's
  \<^verbatim>\<open>FormatError\<close>); the files are what they were, and the output file was never opened.
  In any run at all, the output file is opened, and the files change, only after all
  three reads have returned their data.
\<close>

theorem malformed_value_aborts_before_output:
  "(csv_files w ''csv_reports/cash_on_hand.csv'' = Some cash_file \<and>
    csv_files w ''csv_reports/Overheads.csv'' = Some overheads_file \<and>
    csv_files w ''csv_reports/Profit_and_Loss.csv'' = Some profit_file \<and>
    (\<forall>r\<in>set cash_file. r ''Day'' \<noteq> None \<and> r ''Cash On Hand'' \<noteq> None) \<and>
    (\<forall>r\<in>set overheads_file. r ''Category'' \<noteq> None \<and> r ''Overheads'' \<noteq> None) \<and>
    (\<forall>r\<in>set profit_file. r ''Day'' \<noteq> None \<and> r ''Net Profit'' \<noteq> None) \<and>
    ((\<exists>r\<in>set cash_file. \<exists>s. r ''Day'' = Some s \<and> py_int E s = None \<or>
         r ''Cash On Hand'' = Some s \<and> py_float E s = None) \<or>
     (\<exists>r\<in>set overheads_file. \<exists>s. r ''Overheads'' = Some s \<and> py_float E s = None) \<or>
     (\<exists>r\<in>set profit_file. \<exists>s. r ''Day'' = Some s \<and> py_int E s = None \<or>
         r ''Net Profit'' = Some s \<and> py_float E s = None))
    \<longrightarrow>
    fst (generate_summary_report E w) = Inl ValueError \<and>
    fst (snd (generate_summary_report E w)) = w \<and>
    OpenedForWrite ''summary_report.txt'' \<notin> set (snd (snd (generate_summary_report E w)))) \<and>
   (fst (snd (generate_summary_report E w)) \<noteq> w \<or>
    OpenedForWrite ''summary_report.txt'' \<in> set (snd (snd (generate_summary_report E w)))
    \<longrightarrow>
    (\<exists>c ov p. read_cash_on_hand E w ''csv_reports/cash_on_hand.csv'' = Inr c \<and>
       read_overheads E w ''csv_reports/Overheads.csv'' = Inr ov \<and>
       read_profit_loss E w ''csv_reports/Profit_and_Loss.csv'' = Inr p))"
proof (intro conjI impI)
  assume h: "csv_files w ''csv_reports/cash_on_hand.csv'' = Some cash_file \<and>
    csv_files w ''csv_reports/Overheads.csv'' = Some overheads_file \<and>
    csv_files w ''csv_reports/Profit_and_Loss.csv'' = Some profit_file \<and>
    (\<forall>r\<in>set cash_file. r ''Day'' \<noteq> None \<and> r ''Cash On Hand'' \<noteq> None) \<and>
    (\<forall>r\<in>set overheads_file. r ''Category'' \<noteq> None \<and> r ''Overheads'' \<noteq> None) \<and>
    (\<forall>r\<in>set profit_file. r ''Day'' \<noteq> None \<and> r ''Net Profit'' \<noteq> None) \<and>
    ((\<exists>r\<in>set cash_file. \<exists>s. r ''Day'' = Some s \<and> py_int E s = None \<or>
         r ''Cash On Hand'' = Some s \<and> py_float E s = None) \<or>
     (\<exists>r\<in>set overheads_file. \<exists>s. r ''Overheads'' = Some s \<and> py_float E s = None) \<or>
     (\<exists>r\<in>set profit_file. \<exists>s. r ''Day'' = Some s \<and> py_int E s = None \<or>
         r ''Net Profit'' = Some s \<and> py_float E s = None))"
  let ?rc = "read_cash_on_hand E w ''csv_reports/cash_on_hand.csv''"
  let ?ro = "read_overheads E w ''csv_reports/Overheads.csv''"
  let ?rp = "read_profit_loss E w ''csv_reports/Profit_and_Loss.csv''"
  from h have rc: "?rc = cash_rows E cash_file []"
    and ro: "?ro = overhead_rows E overheads_file []"
    and rp: "?rp = profit_rows E profit_file []"
    by (simp_all add: read_cash_on_hand_def read_overheads_def read_profit_loss_def)
  from h have c: "?rc = Inl ValueError \<or>
    ((\<exists>xs. ?rc = Inr xs) \<and>
     (\<forall>r\<in>set cash_file. \<forall>s. (r ''Day'' = Some s \<longrightarrow> py_int E s \<noteq> None) \<and>
        (r ''Cash On Hand'' = Some s \<longrightarrow> py_float E s \<noteq> None)))"
    unfolding rc by (intro cash_rows_value_error) simp
  from h have ov: "?ro = Inl ValueError \<or>
    ((\<exists>xs. ?ro = Inr xs) \<and>
     (\<forall>r\<in>set overheads_file. \<forall>s. r ''Overheads'' = Some s \<longrightarrow> py_float E s \<noteq> None))"
    unfolding ro by (intro overhead_rows_value_error) simp
  from h have p: "?rp = Inl ValueError \<or>
    ((\<exists>xs. ?rp = Inr xs) \<and>
     (\<forall>r\<in>set profit_file. \<forall>s. (r ''Day'' = Some s \<longrightarrow> py_int E s \<noteq> None) \<and>
        (r ''Net Profit'' = Some s \<longrightarrow> py_float E s \<noteq> None)))"
    unfolding rp by (intro profit_rows_value_error) simp
  from h have bad: "(\<exists>r\<in>set cash_file. \<exists>s. r ''Day'' = Some s \<and> py_int E s = None \<or>
         r ''Cash On Hand'' = Some s \<and> py_float E s = None) \<or>
     (\<exists>r\<in>set overheads_file. \<exists>s. r ''Overheads'' = Some s \<and> py_float E s = None) \<or>
     (\<exists>r\<in>set profit_file. \<exists>s. r ''Day'' = Some s \<and> py_int E s = None \<or>
         r ''Net Profit'' = Some s \<and> py_float E s = None)"
    by blast
  define badc where "badc \<longleftrightarrow> (\<exists>r\<in>set cash_file. \<exists>s. r ''Day'' = Some s \<and> py_int E s = None \<or>
         r ''Cash On Hand'' = Some s \<and> py_float E s = None)"
  define bado where "bado \<longleftrightarrow>
     (\<exists>r\<in>set overheads_file. \<exists>s. r ''Overheads'' = Some s \<and> py_float E s = None)"
  define badp where "badp \<longleftrightarrow> (\<exists>r\<in>set profit_file. \<exists>s. r ''Day'' = Some s \<and> py_int E s = None \<or>
         r ''Net Profit'' = Some s \<and> py_float E s = None)"
  define rc where "rc = ?rc"
  define ro where "ro = ?ro"
  define rp where "rp = ?rp"
  have c1: "rc = Inl ValueError \<or> (\<exists>xs. rc = Inr xs) \<and> \<not> badc"
    using c unfolding rc_def badc_def by blast
  have o1: "ro = Inl ValueError \<or> (\<exists>xs. ro = Inr xs) \<and> \<not> bado"
    using ov unfolding ro_def bado_def by blast
  have p1: "rp = Inl ValueError \<or> (\<exists>xs. rp = Inr xs) \<and> \<not> badp"
    using p unfolding rp_def badp_def by blast
  have b1: "badc \<or> bado \<or> badp"
    using bad unfolding badc_def bado_def badp_def .
  have "rc = Inl ValueError \<or>
      (\<exists>xs. rc = Inr xs \<and> ro = Inl ValueError) \<or>
      (\<exists>xs ys. rc = Inr xs \<and> ro = Inr ys \<and> rp = Inl ValueError)"
    using c1 o1 p1 b1 by blast
  then have first: "?rc = Inl ValueError \<or>
      (\<exists>xs. ?rc = Inr xs \<and> ?ro = Inl ValueError) \<or>
      (\<exists>xs ys. ?rc = Inr xs \<and> ?ro = Inr ys \<and> ?rp = Inl ValueError)"
    unfolding rc_def ro_def rp_def .
  show err: "fst (generate_summary_report E w) = Inl ValueError"
  proof -
    from first consider
      (a) "?rc = Inl ValueError"
      | (b) xs where "?rc = Inr xs" "?ro = Inl ValueError"
      | (c) xs ys where "?rc = Inr xs" "?ro = Inr ys" "?rp = Inl ValueError"
      by blast
    then show ?thesis
    proof cases
      case a
      then show ?thesis by (simp add: gsr_cash_fail)
    next
      case b
      then show ?thesis by (simp add: gsr_overheads_fail)
    next
      case c
      then show ?thesis by (simp add: gsr_profit_fail)
    qed
  qed
  from gsr_unchanged_on_error [OF err]
  show "fst (snd (generate_summary_report E w)) = w"
    and "OpenedForWrite ''summary_report.txt'' \<notin> set (snd (snd (generate_summary_report E w)))"
    by simp_all
next
  assume touched: "fst (snd (generate_summary_report E w)) \<noteq> w \<or>
    OpenedForWrite ''summary_report.txt'' \<in> set (snd (snd (generate_summary_report E w)))"
  show "\<exists>c ov p. read_cash_on_hand E w ''csv_reports/cash_on_hand.csv'' = Inr c \<and>
       read_overheads E w ''csv_reports/Overheads.csv'' = Inr ov \<and>
       read_profit_loss E w ''csv_reports/Profit_and_Loss.csv'' = Inr p"
  proof (cases rule: gsr_cases [of E w])
    case (cash e)
    with touched show ?thesis by (simp add: gsr_cash_fail)
  next
    case (overheads c e)
    with touched show ?thesis by (simp add: gsr_overheads_fail program_order_def)
  next
    case (profit c ov e)
    with touched show ?thesis by (simp add: gsr_profit_fail program_order_def)
  next
    case (locked c ov p)
    then show ?thesis by simp
  next
    case (written c ov p)
    then show ?thesis by simp
  qed
qed

theorem malformed_value_aborts_before_output_witness:
  "fst (generate_summary_report example_env malformed_world) = Inl ValueError \<and>
   fst (snd (generate_summary_report example_env malformed_world)) = malformed_world \<and>
   OpenedForWrite ''summary_report.txt'' \<notin>
     set (snd (snd (generate_summary_report example_env malformed_world))) \<and>
   text_files (fst (snd (generate_summary_report example_env malformed_world)))
     ''summary_report.txt'' = None \<and>
   OpenedForWrite ''summary_report.txt'' \<in>
     set (snd (snd (generate_summary_report example_env example_world))) \<and>
   (\<exists>c ov p. read_cash_on_hand example_env example_world ''csv_reports/cash_on_hand.csv'' = Inr c \<and>
      read_overheads example_env example_world ''csv_reports/Overheads.csv'' = Inr ov \<and>
      read_profit_loss example_env example_world ''csv_reports/Profit_and_Loss.csv'' = Inr p)"
proof -
  have opened: "OpenedForWrite ''summary_report.txt'' \<in>
     set (snd (snd (generate_summary_report example_env example_world)))"
    by code_simp
  with malformed_value_aborts_before_output [where w = example_world and E = example_env]
  have reads: "\<exists>c ov p.
      read_cash_on_hand example_env example_world ''csv_reports/cash_on_hand.csv'' = Inr c \<and>
      read_overheads example_env example_world ''csv_reports/Overheads.csv'' = Inr ov \<and>
      read_profit_loss example_env example_world ''csv_reports/Profit_and_Loss.csv'' = Inr p"
    by blast
  let ?cash = "[map_of [(''Day'', ''1''), (''Cash On Hand'', ''100'')],
           map_of [(''Day'', ''2''), (''Cash On Hand'', ''abc'')]]"
  have f1: "csv_files malformed_world ''csv_reports/cash_on_hand.csv'' = Some ?cash"
    by (simp add: malformed_world_def)
  have f2: "csv_files malformed_world ''csv_reports/Overheads.csv'' = Some example_overhead_rows"
    by (simp add: malformed_world_def example_world_def)
  have f3: "csv_files malformed_world ''csv_reports/Profit_and_Loss.csv'' =
      Some example_profit_rows"
    by (simp add: malformed_world_def example_world_def)
  have c1: "\<forall>r\<in>set ?cash. r ''Day'' \<noteq> None \<and> r ''Cash On Hand'' \<noteq> None" by simp
  have c2: "\<forall>r\<in>set example_overhead_rows. r ''Category'' \<noteq> None \<and> r ''Overheads'' \<noteq> None"
    by (simp add: example_overhead_rows_def)
  have c3: "\<forall>r\<in>set example_profit_rows. r ''Day'' \<noteq> None \<and> r ''Net Profit'' \<noteq> None"
    by (simp add: example_profit_rows_def)
  have "py_float example_env ''abc'' = None"
    by (simp add: example_env_def plain_nat_def)
  then have "map_of [(''Day'', ''2''), (''Cash On Hand'', ''abc'')] ''Cash On Hand'' = Some ''abc'' \<and>
      py_float example_env ''abc'' = None"
    by simp
  then have bad: "\<exists>r\<in>set ?cash. \<exists>s. r ''Day'' = Some s \<and> py_int example_env s = None \<or>
         r ''Cash On Hand'' = Some s \<and> py_float example_env s = None"
    by (intro bexI [of _ "map_of [(''Day'', ''2''), (''Cash On Hand'', ''abc'')]"] exI [of _ "''abc''"])
      simp_all
  from malformed_value_aborts_before_output
    [of malformed_world ?cash example_overhead_rows example_profit_rows example_env]
    f1 f2 f3 c1 c2 c3 bad
  have r: "fst (generate_summary_report example_env malformed_world) = Inl ValueError \<and>
    fst (snd (generate_summary_report example_env malformed_world)) = malformed_world \<and>
    OpenedForWrite ''summary_report.txt'' \<notin>
      set (snd (snd (generate_summary_report example_env malformed_world)))"
    by blast
  moreover have "text_files malformed_world ''summary_report.txt'' = None"
    by (simp add: malformed_world_def example_world_def)
  ultimately show ?thesis using opened reads by simp
qed

end
